theory Spec2Isabelle
  imports Main "HOL-Library.Signed_Division"
begin

section \<open>Focus Pomodoro: the session engine and the statistics store\<close>

text \<open>
  The program is a React component (\<^verbatim>\<open>src/app/page.tsx\<close>, the timer) and a second one
  (\<^verbatim>\<open>src/app/category/page.tsx\<close>, the statistics view).  The component state and the
  cells of \<^verbatim>\<open>localStorage\<close> it writes are one record here, every handler is a function
  from state to state, and the effects that React runs after a handler are written into
  the handler that triggers them.

  Numbers are JavaScript numbers in the source.  Minutes, seconds, counters and time
  stamps are whole numbers in the data model, and the timer only adds, subtracts, compares
  and multiplies them, so they are \<^typ>\<open>int\<close> here; \<^verbatim>\<open>NaN\<close> and the infinities appear only
  where stored text is read, and are written out there.
\<close>

subsection \<open>Data\<close>

datatype TimerMode = Focus | Short | Long

record Durations =
  focus :: int
  short :: int
  long :: int

definition DEFAULT_DURATIONS :: Durations where
  "DEFAULT_DURATIONS = \<lparr>focus = 25, short = 5, long = 15\<rparr>"

text \<open>\<^verbatim>\<open>durations[mode]\<close>\<close>

fun duration_of :: "Durations \<Rightarrow> TimerMode \<Rightarrow> int" where
  "duration_of d Focus = focus d"
| "duration_of d Short = short d"
| "duration_of d Long = long d"

text \<open>\<^verbatim>\<open>{ ...durations, [field]: v }\<close>\<close>

fun set_duration :: "Durations \<Rightarrow> TimerMode \<Rightarrow> int \<Rightarrow> Durations" where
  "set_duration d Focus v = d\<lparr>focus := v\<rparr>"
| "set_duration d Short v = d\<lparr>short := v\<rparr>"
| "set_duration d Long v = d\<lparr>long := v\<rparr>"

record FocusEvent =
  ts :: int
  category :: string
  minutes :: int

text \<open>
  \<^verbatim>\<open>Record<string, number>\<close>: a plain object, as the list of its own properties.  They are
  listed in insertion order; that JavaScript lists keys that are array indices first is
  not modelled, and nothing below depends on the order.
\<close>

type_synonym CategoryMinutes = "(string \<times> int) list"

text \<open>
  The values that \<^verbatim>\<open>onFinish\<close> reads when the interval callback calls it.  The interval
  is installed by the effect with dependencies \<^verbatim>\<open>[isRunning]\<close>, so the callback keeps the
  \<^verbatim>\<open>onFinish\<close> of the render in which the timer was started, and with it that render's
  \<^verbatim>\<open>mode\<close>, \<^verbatim>\<open>durations\<close>, \<^verbatim>\<open>completedFocusCount\<close> and \<^verbatim>\<open>selectedCategory\<close>.
\<close>

record Captured =
  cap_mode :: TimerMode
  cap_durations :: Durations
  cap_completedFocusCount :: int
  cap_selectedCategory :: string

record State =
  durations :: Durations
  mode :: TimerMode
  isRunning :: bool
  remainingSeconds :: int
  completedFocusCount :: int
  totalMinutes :: int
  selectedCategory :: string
  categoryMinutes :: CategoryMinutes
  focusEvents :: "FocusEvent list"
  captured :: Captured

text \<open>
  \<^verbatim>\<open>categoryMinutes\<close> and \<^verbatim>\<open>focusEvents\<close> are the cells \<^verbatim>\<open>fp:category-minutes\<close> and
  \<^verbatim>\<open>fp:focus-events\<close> of \<^verbatim>\<open>localStorage\<close>, held as the values that \<^verbatim>\<open>JSON.parse\<close> gives
  back for the text \<^verbatim>\<open>JSON.stringify\<close> wrote; an absent cell is the empty object or the
  empty array, as in \<^verbatim>\<open>onFinish\<close>.  How the readers treat text the program did not write
  is modelled separately, in the section on loading.
\<close>

subsection \<open>JavaScript helpers\<close>

text \<open>
  \<^verbatim>\<open>a % b\<close> truncates towards zero and takes the sign of \<^verbatim>\<open>a\<close>, which is
  \<^term>\<open>(smod)\<close> on \<^typ>\<open>int\<close>.
\<close>

definition js_rem :: "int \<Rightarrow> int \<Rightarrow> int" where
  "js_rem a b = a smod b"

text \<open>
  \<^verbatim>\<open>String.prototype.trim\<close> on the one-byte white space and line terminators (tab, line
  feed, vertical tab, form feed, carriage return, space).
\<close>

definition is_space :: "char \<Rightarrow> bool" where
  "is_space c = (c \<in> set [CHR 0x09, CHR 0x0A, CHR 0x0B, CHR 0x0C, CHR 0x0D, CHR '' ''])"

definition trim :: "string \<Rightarrow> string" where
  "trim s = rev (dropWhile is_space (rev (dropWhile is_space s)))"

text \<open>
  \<^verbatim>\<open>Number(map[label]) || 0\<close>: the stored number, and 0 for a key the object does not have
  of its own (what it inherits under a name is an object or a function, which
  \<^verbatim>\<open>Number\<close> turns into \<^verbatim>\<open>NaN\<close>).
\<close>

definition get_minutes :: "CategoryMinutes \<Rightarrow> string \<Rightarrow> int" where
  "get_minutes m label = (case map_of m label of None \<Rightarrow> 0 | Some v \<Rightarrow> v)"

text \<open>
  \<^verbatim>\<open>Map.prototype.set\<close>, and the write to a property an object has of its own: an
  existing key keeps its place, a new key goes last.
\<close>

fun set_prop :: "(string \<times> 'v) list \<Rightarrow> string \<Rightarrow> 'v \<Rightarrow> (string \<times> 'v) list" where
  "set_prop [] k v = [(k, v)]"
| "set_prop ((k', v') # m) k v = (if k' = k then (k, v) # m else (k', v') # set_prop m k v)"

text \<open>
  \<^verbatim>\<open>map[label] = v\<close> on a plain object, for a number \<^verbatim>\<open>v\<close>.  Under the name
  \<^verbatim>\<open>__proto__\<close> every plain object inherits an accessor whose setter ignores a number, so
  the assignment stores nothing, unless the object has a property of its own under that
  name, which only \<^verbatim>\<open>JSON.parse\<close> of a text with that key makes.  Every other name the
  object inherits is a writable data property, and the assignment makes an own property.
\<close>

definition assign_prop :: "(string \<times> 'v) list \<Rightarrow> string \<Rightarrow> 'v \<Rightarrow> (string \<times> 'v) list" where
  "assign_prop m k v =
     (if k = ''__proto__'' \<and> map_of m k = None then m else set_prop m k v)"

subsection \<open>The session engine\<close>

text \<open>\<^verbatim>\<open>nextMode\<close>, with the \<^verbatim>\<open>completedFocusCount\<close> it reads as an argument.\<close>

definition nextMode :: "int \<Rightarrow> TimerMode \<Rightarrow> TimerMode" where
  "nextMode count current =
     (if current = Focus
      then (if js_rem (count + 1) 4 = 0 then Long else Short)
      else Focus)"

text \<open>The category-minutes block of \<^verbatim>\<open>onFinish\<close>.\<close>

definition trackCategoryMinutes :: "string \<Rightarrow> int \<Rightarrow> CategoryMinutes \<Rightarrow> CategoryMinutes" where
  "trackCategoryMinutes label mins m =
     assign_prop m label (max 0 (get_minutes m label + mins))"

text \<open>
  The focus-events block of \<^verbatim>\<open>onFinish\<close>: \<^verbatim>\<open>push\<close>, then \<^verbatim>\<open>slice(events.length - 1000)\<close>
  when there are more than 1000.
\<close>

definition appendFocusEvent :: "FocusEvent \<Rightarrow> FocusEvent list \<Rightarrow> FocusEvent list" where
  "appendFocusEvent ev events =
     (let es = events @ [ev]
      in if length es > 1000 then drop (length es - 1000) es else es)"

text \<open>
  \<^verbatim>\<open>onFinish\<close>.  \<^verbatim>\<open>now\<close> is \<^verbatim>\<open>Date.now()\<close>.  The two counters are set with updater
  functions, which see the current state; everything else is read from the captured render.
\<close>

definition onFinish :: "int \<Rightarrow> State \<Rightarrow> State" where
  "onFinish now s =
     (let c = captured s;
          s1 = (if cap_mode c = Focus
                then (let label = trim (cap_selectedCategory c);
                          mins = focus (cap_durations c)
                      in s\<lparr>completedFocusCount := completedFocusCount s + 1,
                           totalMinutes := totalMinutes s + mins,
                           categoryMinutes := trackCategoryMinutes label mins (categoryMinutes s),
                           focusEvents :=
                             appendFocusEvent \<lparr>ts = now, category = label, minutes = mins\<rparr>
                               (focusEvents s)\<rparr>)
                else s);
          nm = nextMode (cap_completedFocusCount c) (cap_mode c)
      in s1\<lparr>mode := nm, remainingSeconds := duration_of (cap_durations c) nm * 60\<rparr>)"

text \<open>The value that the updater of the interval callback returns for \<^verbatim>\<open>prev\<close>.\<close>

definition countdown :: "int \<Rightarrow> int" where
  "countdown prev = (if prev \<le> 1 then 0 else prev - 1)"

text \<open>
  One firing of the interval callback.  The interval exists only while \<^verbatim>\<open>isRunning\<close>.
  When \<^verbatim>\<open>prev <= 1\<close> the updater stops the timer and calls \<^verbatim>\<open>onFinish\<close>, whose updates are
  queued before the updater's own result 0; then, the mode having changed, the effect on
  \<^verbatim>\<open>[durations, mode]\<close> sets \<^verbatim>\<open>remainingSeconds\<close> to \<^verbatim>\<open>durations[mode] * 60\<close> with the
  current \<^verbatim>\<open>durations\<close>.  The updater is taken to run once for each firing, as in a
  production build, and the writes to \<^verbatim>\<open>localStorage\<close> to succeed.
\<close>

definition tick :: "int \<Rightarrow> State \<Rightarrow> State" where
  "tick now s =
     (if \<not> isRunning s then s
      else if remainingSeconds s \<le> 1
      then (let s1 = onFinish now (s\<lparr>isRunning := False\<rparr>);
                s2 = s1\<lparr>remainingSeconds := countdown (remainingSeconds s)\<rparr>
            in if mode s2 \<noteq> mode s
               then s2\<lparr>remainingSeconds := duration_of (durations s2) (mode s2) * 60\<rparr>
               else s2)
      else s\<lparr>remainingSeconds := countdown (remainingSeconds s)\<rparr>)"

text \<open>
  \<^verbatim>\<open>handleStartPause\<close>.  Turning the timer on runs the interval effect, which captures the
  render it belongs to.
\<close>

definition capture :: "State \<Rightarrow> Captured" where
  "capture s = \<lparr>cap_mode = mode s, cap_durations = durations s,
                cap_completedFocusCount = completedFocusCount s,
                cap_selectedCategory = selectedCategory s\<rparr>"

definition handleStartPause :: "State \<Rightarrow> State" where
  "handleStartPause s =
     (if isRunning s then s\<lparr>isRunning := False\<rparr>
      else s\<lparr>isRunning := True, captured := capture s\<rparr>)"

definition handleReset :: "State \<Rightarrow> State" where
  "handleReset s =
     s\<lparr>isRunning := False, remainingSeconds := duration_of (durations s) (mode s) * 60\<rparr>"

definition handleSkip :: "State \<Rightarrow> State" where
  "handleSkip s =
     (let nm = nextMode (completedFocusCount s) (mode s)
      in s\<lparr>isRunning := False, mode := nm,
           remainingSeconds := duration_of (durations s) nm * 60\<rparr>)"

text \<open>
  The \<^verbatim>\<open>onChange\<close> of the three settings inputs.  The value of an
  \<^verbatim>\<open><input type="number">\<close> is the empty string (\<^term>\<open>None\<close>: nothing typed, or text that
  is not a number) or the text of a number (\<^term>\<open>Some n\<close>);
  \<^verbatim>\<open>Number(e.target.value || 0)\<close> turns the empty string into 0.
\<close>

definition clampMinutes :: "int option \<Rightarrow> int" where
  "clampMinutes v = max 1 (min 180 (case v of None \<Rightarrow> 0 | Some n \<Rightarrow> n))"

text \<open>
  \<^verbatim>\<open>setDurations\<close> always stores a new object, so the effect on \<^verbatim>\<open>[durations, mode]\<close> runs
  after every edit.
\<close>

definition onChangeDuration :: "TimerMode \<Rightarrow> int option \<Rightarrow> State \<Rightarrow> State" where
  "onChangeDuration field v s =
     (let d = set_duration (durations s) field (clampMinutes v)
      in s\<lparr>durations := d, remainingSeconds := duration_of d (mode s) * 60\<rparr>)"

definition setSelectedCategory :: "string \<Rightarrow> State \<Rightarrow> State" where
  "setSelectedCategory v s = s\<lparr>selectedCategory := v\<rparr>"

text \<open>
  The states the component can be in.  It mounts in focus mode, stopped, and the effect
  on \<^verbatim>\<open>[durations, mode]\<close> has set the countdown from the loaded durations; the counters,
  the category and the stored cells are whatever was loaded.
\<close>

inductive reachable :: "State \<Rightarrow> bool" where
  mount: "mode s = Focus \<Longrightarrow> \<not> isRunning s \<Longrightarrow>
          remainingSeconds s = focus (durations s) * 60 \<Longrightarrow> reachable s"
| startPause: "reachable s \<Longrightarrow> reachable (handleStartPause s)"
| reset: "reachable s \<Longrightarrow> reachable (handleReset s)"
| skip: "reachable s \<Longrightarrow> reachable (handleSkip s)"
| ticked: "reachable s \<Longrightarrow> reachable (tick now s)"
| changed: "reachable s \<Longrightarrow> reachable (onChangeDuration field v s)"
| selected: "reachable s \<Longrightarrow> reachable (setSelectedCategory v s)"

text \<open>
  While the timer runs, the captured \<^verbatim>\<open>mode\<close> and \<^verbatim>\<open>completedFocusCount\<close> are the current
  ones: every handler that changes either of them also stops the timer.
\<close>

definition in_sync :: "State \<Rightarrow> bool" where
  "in_sync s = (cap_mode (captured s) = mode s \<and>
                cap_completedFocusCount (captured s) = completedFocusCount s)"

text \<open>
  A whole interval: reset, start, and as many ticks as the countdown has seconds.  After
  a focus interval the break is either run to its end or skipped.
\<close>

definition fresh :: "State \<Rightarrow> State" where
  "fresh s = handleStartPause (handleReset s)"

definition completeInterval :: "int \<Rightarrow> State \<Rightarrow> State" where
  "completeInterval now s = (tick now ^^ nat (remainingSeconds (fresh s))) (fresh s)"

definition takeBreak :: "int \<Rightarrow> bool \<Rightarrow> State \<Rightarrow> State" where
  "takeBreak now skipped s = (if skipped then handleSkip s else completeInterval now s)"

fun pomodoros :: "int \<Rightarrow> bool list \<Rightarrow> State \<Rightarrow> State" where
  "pomodoros now [] s = s"
| "pomodoros now (b # bs) s = pomodoros now bs (takeBreak now b (completeInterval now s))"

text \<open>
  The component just mounted, with the given durations and completed-focus count loaded and
  nothing recorded yet.
\<close>

definition idle :: "Durations \<Rightarrow> int \<Rightarrow> State" where
  "idle d c =
     \<lparr>durations = d, mode = Focus, isRunning = False, remainingSeconds = focus d * 60,
      completedFocusCount = c, totalMinutes = 0, selectedCategory = ''Genel'',
      categoryMinutes = [], focusEvents = [],
      captured = \<lparr>cap_mode = Focus, cap_durations = d, cap_completedFocusCount = c,
                   cap_selectedCategory = ''Genel''\<rparr>\<rparr>"

definition durations_positive :: "Durations \<Rightarrow> bool" where
  "durations_positive d = (1 \<le> focus d \<and> 1 \<le> short d \<and> 1 \<le> long d)"

definition durations_ok :: "Durations \<Rightarrow> bool" where
  "durations_ok d = (1 \<le> focus d \<and> focus d \<le> 180 \<and> 1 \<le> short d \<and> short d \<le> 180 \<and>
                     1 \<le> long d \<and> long d \<le> 180)"

subsection \<open>The statistics store\<close>

text \<open>
  The two storage blocks of \<^verbatim>\<open>onFinish\<close> as one function on the two cells.
\<close>

definition recordCompletion ::
  "int \<Rightarrow> string \<Rightarrow> int \<Rightarrow> CategoryMinutes \<times> FocusEvent list \<Rightarrow> CategoryMinutes \<times> FocusEvent list"
where
  "recordCompletion now label mins st =
     (trackCategoryMinutes label mins (fst st),
      appendFocusEvent \<lparr>ts = now, category = label, minutes = mins\<rparr> (snd st))"

text \<open>A completion as it reaches the store: the clock, the label and the minutes.\<close>

type_synonym completion = "int \<times> string \<times> int"

definition event_of :: "completion \<Rightarrow> FocusEvent" where
  "event_of c = \<lparr>ts = fst c, category = fst (snd c), minutes = snd (snd c)\<rparr>"

definition recordAll ::
  "completion list \<Rightarrow> CategoryMinutes \<times> FocusEvent list \<Rightarrow> CategoryMinutes \<times> FocusEvent list"
where
  "recordAll cs st = foldl (\<lambda>acc c. recordCompletion (fst c) (fst (snd c)) (snd (snd c)) acc) st cs"

text \<open>
  \<^verbatim>\<open>totalsByCat.set(label, (totalsByCat.get(label) ?? 0) + minutes)\<close>, and the
  \<^verbatim>\<open>find\<close>/\<^verbatim>\<open>push\<close> on a day's breakdown, which does the same to an array of pairs.
\<close>

definition add_minutes :: "(string \<times> int) list \<Rightarrow> string \<Rightarrow> int \<Rightarrow> (string \<times> int) list" where
  "add_minutes m label mins = set_prop m label (get_minutes m label + mins)"

text \<open>
  Minutes per category by replaying a log, as the statistics view sums them.
\<close>

definition replayLog :: "FocusEvent list \<Rightarrow> (string \<times> int) list" where
  "replayLog events = foldl (\<lambda>m ev. add_minutes m (category ev) (minutes ev)) [] events"

text \<open>The minutes a log holds for a label, summed directly.\<close>

definition minutesOf :: "FocusEvent list \<Rightarrow> string \<Rightarrow> int" where
  "minutesOf events label = sum_list (map minutes (filter (\<lambda>e. category e = label) events))"

text \<open>
  \<^verbatim>\<open>Array.prototype.sort\<close> with a comparator: a stable sort, here by insertion.  An
  element goes before the first one it compares less than.
\<close>

fun insort_cmp :: "('a \<Rightarrow> 'a \<Rightarrow> int) \<Rightarrow> 'a \<Rightarrow> 'a list \<Rightarrow> 'a list" where
  "insort_cmp cmp x [] = [x]"
| "insort_cmp cmp x (y # ys) = (if cmp x y < 0 then x # y # ys else y # insort_cmp cmp x ys)"

definition sort_cmp :: "('a \<Rightarrow> 'a \<Rightarrow> int) \<Rightarrow> 'a list \<Rightarrow> 'a list" where
  "sort_cmp cmp xs = foldl (\<lambda>acc x. insort_cmp cmp x acc) [] xs"

text \<open>
  What sorting needs of a comparator: of two elements one is not after the other, and
  not being after is transitive.  A collation has both.
\<close>

definition consistent :: "('a \<Rightarrow> 'a \<Rightarrow> int) \<Rightarrow> bool" where
  "consistent cmp = ((\<forall>a b. 0 \<le> cmp a b \<longrightarrow> cmp b a \<le> 0) \<and>
                     (\<forall>a b c. cmp a b \<le> 0 \<longrightarrow> cmp b c \<le> 0 \<longrightarrow> cmp a c \<le> 0))"

subsubsection \<open>The weekly view\<close>

text \<open>
  A row of \<^verbatim>\<open>weekDays\<close>: \<open>date\<close> is \<^verbatim>\<open>date.getTime()\<close>; the \<^verbatim>\<open>key\<close>, the same date as
  text, is left out.  An event is read as \<^verbatim>\<open>{ts, category, minutes}\<close> with whole numbers.
\<close>

record DayRow =
  date :: int
  total' :: int
  breakdown :: "(string \<times> int) list"

definition MS_PER_DAY :: int where
  "MS_PER_DAY = 24 * 60 * 60 * 1000"

text \<open>\<^verbatim>\<open>(day + 6) % 7\<close> for \<^verbatim>\<open>day = now.getDay()\<close>, 0 for Sunday to 6 for Saturday.\<close>

definition diffToMonday :: "nat \<Rightarrow> nat" where
  "diffToMonday day = (day + 6) mod 7"

text \<open>
  The \<^verbatim>\<open>Date\<close> object is the browser's.  What the view takes from it is \<open>dayStart\<close>:
  \<open>dayStart i\<close> is \<^verbatim>\<open>d.getTime()\<close> for the \<^verbatim>\<open>d\<close> of the loop's round \<open>i\<close>, the local
  midnight that begins day \<open>i\<close> of the current week, \<open>dayStart 0\<close> being
  \<^verbatim>\<open>weekStart.getTime()\<close>, the Monday.
\<close>

definition weekRows :: "(nat \<Rightarrow> int) \<Rightarrow> DayRow list" where
  "weekRows dayStart = map (\<lambda>i. \<lparr>date = dayStart i, total' = 0, breakdown = []\<rparr>) [0..<7]"

definition weekly_step ::
  "int \<Rightarrow> DayRow list \<times> (string \<times> int) list \<Rightarrow> FocusEvent \<Rightarrow> DayRow list \<times> (string \<times> int) list"
where
  "weekly_step startMs acc ev =
     (let days = fst acc; totalsByCat = snd acc;
          endMs = startMs + 7 * MS_PER_DAY
      in if ts ev \<ge> startMs \<and> ts ev < endMs
         then (let idx = nat ((ts ev - startMs) div MS_PER_DAY)
               in if idx < length days
                  then (let dayRow = days ! idx
                        in (days[idx := dayRow\<lparr>breakdown :=
                                                add_minutes (breakdown dayRow) (category ev) (minutes ev),
                                              total' := total' dayRow + minutes ev\<rparr>],
                            add_minutes totalsByCat (category ev) (minutes ev)))
                  else acc)
         else acc)"

definition weekly :: "(nat \<Rightarrow> int) \<Rightarrow> FocusEvent list \<Rightarrow> DayRow list \<times> (string \<times> int) list" where
  "weekly dayStart events =
     (let acc = foldl (weekly_step (dayStart 0)) (weekRows dayStart, []) events
      in (map (\<lambda>d. d\<lparr>breakdown := sort_cmp (\<lambda>a b. snd b - snd a) (breakdown d)\<rparr>) (fst acc),
          snd acc))"

text \<open>
  An instant lies on day \<open>i\<close> of the week when it is at or after that day's local midnight
  and before the next one.
\<close>

definition onLocalDay :: "(nat \<Rightarrow> int) \<Rightarrow> nat \<Rightarrow> int \<Rightarrow> bool" where
  "onLocalDay dayStart i t = (dayStart i \<le> t \<and> t < dayStart (Suc i))"

text \<open>
  The test and the index that \<^verbatim>\<open>weekly_step\<close> computes for an event: inside the seven
  times 24 hours from \<open>startMs\<close>, and the number of whole 24 hours since then.
\<close>

definition inWeek :: "int \<Rightarrow> FocusEvent \<Rightarrow> bool" where
  "inWeek startMs ev = (startMs \<le> ts ev \<and> ts ev < startMs + 7 * MS_PER_DAY)"

definition dayIndex :: "int \<Rightarrow> FocusEvent \<Rightarrow> nat" where
  "dayIndex startMs ev = nat ((ts ev - startMs) div MS_PER_DAY)"

text \<open>A week in which every local day has 24 hours.\<close>

definition regular_week :: "(nat \<Rightarrow> int) \<Rightarrow> bool" where
  "regular_week dayStart = (\<forall>i\<le>7. dayStart i = dayStart 0 + int i * MS_PER_DAY)"

text \<open>
  The eight local midnights, Monday 20 October to Monday 27 October 2025, of a browser in
  the zone Europe/Berlin, in epoch milliseconds.  Summer time ends on Sunday the 26th at
  03:00, so that Sunday has 25 hours.
\<close>

definition berlin_week :: "nat \<Rightarrow> int" where
  "berlin_week i =
     [1760911200000, 1760997600000, 1761084000000, 1761170400000, 1761256800000,
      1761343200000, 1761429600000, 1761519600000] ! i"

subsubsection \<open>Category colours\<close>

definition palette :: "string list" where
  "palette = [''var(--chart-1)'', ''var(--chart-2)'', ''var(--chart-3)'', ''var(--chart-4)'',
              ''var(--chart-5)'']"

text \<open>\<^verbatim>\<open>Set.prototype.add\<close>; a \<^verbatim>\<open>Set\<close> lists its members in the order they were first added.\<close>

definition set_add :: "string list \<Rightarrow> string \<Rightarrow> string list" where
  "set_add xs x = (if x \<in> set xs then xs else xs @ [x])"

definition seenCategories :: "CategoryMinutes \<Rightarrow> FocusEvent list \<Rightarrow> string list" where
  "seenCategories m events =
     filter (\<lambda>x. length (trim x) > 0)
       (foldl set_add (foldl set_add [] (map fst m)) (map category events))"

text \<open>
  \<^verbatim>\<open>allCategories\<close>; \<open>localeCompare a b\<close> is \<^verbatim>\<open>a.localeCompare(b, "tr")\<close>, the browser's
  Turkish collation.
\<close>

definition allCategories ::
  "(string \<Rightarrow> string \<Rightarrow> int) \<Rightarrow> CategoryMinutes \<Rightarrow> FocusEvent list \<Rightarrow> string list" where
  "allCategories localeCompare m events = sort_cmp localeCompare (seenCategories m events)"

text \<open>The \<^verbatim>\<open>Map\<close> that \<^verbatim>\<open>forEach((label, idx) => map.set(...))\<close> fills.\<close>

definition colorMap :: "string list \<Rightarrow> (string \<times> string) list" where
  "colorMap cats =
     foldl (\<lambda>mp p. set_prop mp (fst p) (palette ! (snd p mod length palette))) []
       (zip cats [0..<length cats])"

definition categoryColor ::
  "(string \<Rightarrow> string \<Rightarrow> int) \<Rightarrow> CategoryMinutes \<Rightarrow> FocusEvent list \<Rightarrow> string \<Rightarrow> string" where
  "categoryColor localeCompare m events label =
     (case map_of (colorMap (allCategories localeCompare m events)) label of
        Some c \<Rightarrow> c
      | None \<Rightarrow> palette ! 0)"

text \<open>
  The colour a label would get if colours went by the order in which the labels were
  first seen, as the specification words it.
\<close>

definition firstSeenColor :: "CategoryMinutes \<Rightarrow> FocusEvent list \<Rightarrow> string \<Rightarrow> string" where
  "firstSeenColor m events label =
     (case map_of (colorMap (seenCategories m events)) label of
        Some c \<Rightarrow> c
      | None \<Rightarrow> palette ! 0)"

text \<open>
  A comparator by character code.  On words of capital ASCII letters it orders as the
  Turkish collation does.
\<close>

fun codeCompare :: "string \<Rightarrow> string \<Rightarrow> int" where
  "codeCompare [] [] = 0"
| "codeCompare [] (y # ys) = - 1"
| "codeCompare (x # xs) [] = 1"
| "codeCompare (x # xs) (y # ys) =
     (if (of_char x :: nat) < of_char y then - 1
      else if (of_char y :: nat) < of_char x then 1
      else codeCompare xs ys)"

subsection \<open>Loading persisted state\<close>

text \<open>
  What the readers see of a cell that holds JSON: \<open>Absent\<close> when \<^verbatim>\<open>getItem\<close> gives
  \<^verbatim>\<open>null\<close> or the empty string (the test \<^verbatim>\<open>raw ? ... : ...\<close> fails), \<open>Corrupt\<close> when
  \<^verbatim>\<open>JSON.parse\<close> throws, and the parsed value otherwise.  An object keeps its members in
  the order of the text; of a repeated key the last one counts.
\<close>

datatype json = JNull | JBool bool | JNum int | JStr string | JArr "json list"
  | JObj "(string \<times> json) list"

datatype stored = Absent | Corrupt | Parsed json

text \<open>\<^verbatim>\<open>parsed && typeof parsed === "object"\<close>: objects and arrays, not \<^verbatim>\<open>null\<close>.\<close>

fun is_object :: "json \<Rightarrow> bool" where
  "is_object (JObj kvs) = True"
| "is_object (JArr xs) = True"
| "is_object v = False"

text \<open>
  The own enumerable property of a parsed value under a name that is not an array index.
\<close>

fun named_prop :: "json \<Rightarrow> string \<Rightarrow> json option" where
  "named_prop (JObj kvs) k = map_of (rev kvs) k"
| "named_prop v k = None"

text \<open>
  The \<^verbatim>\<open>durations\<close> state after the load effect.  The cast
  \<^verbatim>\<open>as Partial<Durations>\<close> checks nothing, so a field holds whatever the stored object
  has under its name.  Only the three named fields are kept here: what else the merged
  object holds, such as the indices of a stored array, is written back but never read.
\<close>

record RawDurations =
  raw_focus :: json
  raw_short :: json
  raw_long :: json

definition raw_of :: "Durations \<Rightarrow> RawDurations" where
  "raw_of d = \<lparr>raw_focus = JNum (focus d), raw_short = JNum (short d), raw_long = JNum (long d)\<rparr>"

text \<open>\<^verbatim>\<open>{ ...prev, ...parsed }\<close>\<close>

definition spread :: "RawDurations \<Rightarrow> json \<Rightarrow> RawDurations" where
  "spread prev parsed =
     \<lparr>raw_focus = (case named_prop parsed ''focus'' of Some v \<Rightarrow> v | None \<Rightarrow> raw_focus prev),
      raw_short = (case named_prop parsed ''short'' of Some v \<Rightarrow> v | None \<Rightarrow> raw_short prev),
      raw_long = (case named_prop parsed ''long'' of Some v \<Rightarrow> v | None \<Rightarrow> raw_long prev)\<rparr>"

definition loadDurations :: "stored \<Rightarrow> RawDurations" where
  "loadDurations cell =
     (case cell of
        Parsed parsed \<Rightarrow>
          if is_object parsed then spread (raw_of DEFAULT_DURATIONS) parsed
          else raw_of DEFAULT_DURATIONS
      | _ \<Rightarrow> raw_of DEFAULT_DURATIONS)"

definition in_range :: "json \<Rightarrow> bool" where
  "in_range v = (case v of JNum n \<Rightarrow> 1 \<le> n \<and> n \<le> 180 | _ \<Rightarrow> False)"

definition raw_ok :: "RawDurations \<Rightarrow> bool" where
  "raw_ok r = (in_range (raw_focus r) \<and> in_range (raw_short r) \<and> in_range (raw_long r))"










section \<open>Properties of the session engine\<close>

subsection \<open>The break rule and the counting ticks\<close>

lemma js_rem_4_zero: "js_rem a 4 = 0 \<longleftrightarrow> a mod 4 = 0"
  unfolding js_rem_def signed_modulo_int_def
  by (auto simp: sgn_if abs_if split: if_splits)

lemma nextMode_Focus: "nextMode c Focus = (if (c + 1) mod 4 = 0 then Long else Short)"
  by (simp add: nextMode_def js_rem_4_zero)

lemma nextMode_break: "m \<noteq> Focus \<Longrightarrow> nextMode c m = Focus"
  by (simp add: nextMode_def)

lemma nextMode_neq: "nextMode c m \<noteq> m"
  by (cases m) (auto simp: nextMode_def)

lemma tick_counting:
  "isRunning s \<Longrightarrow> 1 < remainingSeconds s \<Longrightarrow>
   tick now s = s\<lparr>remainingSeconds := remainingSeconds s - 1\<rparr>"
  by (simp add: tick_def countdown_def)

lemma ticks_counting:
  "isRunning s \<Longrightarrow> int k < remainingSeconds s \<Longrightarrow>
   (tick now ^^ k) s = s\<lparr>remainingSeconds := remainingSeconds s - int k\<rparr>"
proof (induction k)
  case 0
  then show ?case by simp
next
  case (Suc k)
  then have "(tick now ^^ k) s = s\<lparr>remainingSeconds := remainingSeconds s - int k\<rparr>" by simp
  then show ?case using Suc.prems by (simp add: tick_counting)
qed

lemma reachable_sync: "reachable s \<Longrightarrow> isRunning s \<Longrightarrow> in_sync s"
proof (induction rule: reachable.induct)
  case (mount s) then show ?case by simp
next
  case (startPause s) then show ?case
    by (auto simp: handleStartPause_def in_sync_def capture_def split: if_splits)
next
  case (reset s) then show ?case by (simp add: handleReset_def)
next
  case (skip s) then show ?case by (simp add: handleSkip_def Let_def)
next
  case (ticked s now) then show ?case
    by (auto simp: tick_def Let_def in_sync_def onFinish_def split: if_splits)
next
  case (changed s field v) then show ?case
    by (auto simp: onChangeDuration_def Let_def in_sync_def)
next
  case (selected s v) then show ?case
    by (auto simp: setSelectedCategory_def in_sync_def)
qed

lemma reachable_ticks: "reachable s \<Longrightarrow> reachable ((tick now ^^ k) s)"
  by (induction k) (auto intro: reachable.ticked)

subsection \<open>The finishing tick\<close>

lemma tick_finish_mode:
  "isRunning s \<Longrightarrow> remainingSeconds s \<le> 1 \<Longrightarrow> in_sync s \<Longrightarrow>
   mode (tick now s) = nextMode (completedFocusCount s) (mode s)"
  by (simp add: tick_def Let_def onFinish_def in_sync_def)

lemma tick_finish_frame:
  "isRunning s \<Longrightarrow> remainingSeconds s \<le> 1 \<Longrightarrow> in_sync s \<Longrightarrow>
   \<not> isRunning (tick now s) \<and> durations (tick now s) = durations s \<and>
   selectedCategory (tick now s) = selectedCategory s \<and>
   remainingSeconds (tick now s) =
     duration_of (durations s) (nextMode (completedFocusCount s) (mode s)) * 60"
  using nextMode_neq [of "completedFocusCount s" "mode s"]
  by (auto simp: tick_def Let_def onFinish_def in_sync_def)

lemma tick_finish_focus:
  "isRunning s \<Longrightarrow> remainingSeconds s \<le> 1 \<Longrightarrow> in_sync s \<Longrightarrow> mode s = Focus \<Longrightarrow>
   completedFocusCount (tick now s) = completedFocusCount s + 1 \<and>
   totalMinutes (tick now s) = totalMinutes s + focus (cap_durations (captured s)) \<and>
   categoryMinutes (tick now s) =
     trackCategoryMinutes (trim (cap_selectedCategory (captured s)))
       (focus (cap_durations (captured s))) (categoryMinutes s) \<and>
   focusEvents (tick now s) =
     appendFocusEvent \<lparr>ts = now, category = trim (cap_selectedCategory (captured s)),
                       minutes = focus (cap_durations (captured s))\<rparr> (focusEvents s)"
  by (simp add: tick_def Let_def onFinish_def in_sync_def)

lemma tick_finish_break:
  "isRunning s \<Longrightarrow> remainingSeconds s \<le> 1 \<Longrightarrow> in_sync s \<Longrightarrow> mode s \<noteq> Focus \<Longrightarrow>
   completedFocusCount (tick now s) = completedFocusCount s \<and>
   totalMinutes (tick now s) = totalMinutes s \<and>
   categoryMinutes (tick now s) = categoryMinutes s \<and>
   focusEvents (tick now s) = focusEvents s"
  by (simp add: tick_def Let_def onFinish_def in_sync_def)

subsection \<open>A freshly reset and started timer\<close>


lemma fresh_eq:
  "fresh s = s\<lparr>isRunning := True,
               remainingSeconds := duration_of (durations s) (mode s) * 60,
               captured := capture s\<rparr>"
  by (simp add: fresh_def handleStartPause_def handleReset_def capture_def)

lemma last_tick_state:
  assumes "1 \<le> duration_of (durations s) (mode s)"
  shows "(tick now ^^ (nat (duration_of (durations s) (mode s) * 60) - 1)) (fresh s) =
         (fresh s)\<lparr>remainingSeconds := 1\<rparr>"
proof -
  let ?N = "nat (duration_of (durations s) (mode s) * 60)"
  have run: "isRunning (fresh s)" by (simp add: fresh_eq)
  have rem: "remainingSeconds (fresh s) = int ?N" using assms by (simp add: fresh_eq)
  have "int (?N - 1) < remainingSeconds (fresh s)" using assms rem by linarith
  from ticks_counting [OF run this, of now]
  show ?thesis using assms rem by (simp add: of_nat_diff)
qed

lemma all_ticks_state:
  assumes "1 \<le> duration_of (durations s) (mode s)"
  shows "(tick now ^^ nat (duration_of (durations s) (mode s) * 60)) (fresh s) =
         tick now ((fresh s)\<lparr>remainingSeconds := 1\<rparr>)"
proof -
  let ?N = "nat (duration_of (durations s) (mode s) * 60)"
  have "?N = Suc (?N - 1)" using assms by simp
  then have "(tick now ^^ ?N) (fresh s) = tick now ((tick now ^^ (?N - 1)) (fresh s))"
    by (metis funpow.simps(2) o_apply)
  then show ?thesis using last_tick_state [OF assms] by simp
qed


lemma fresh_sync: "in_sync (fresh s\<lparr>remainingSeconds := r\<rparr>)"
  by (simp add: fresh_eq in_sync_def capture_def)

lemma completeInterval_eq:
  assumes "1 \<le> duration_of (durations s) (mode s)"
  shows "completeInterval now s = tick now ((fresh s)\<lparr>remainingSeconds := 1\<rparr>)"
  using all_ticks_state [OF assms, of now] by (simp add: completeInterval_def fresh_eq)

lemma completeInterval_mode:
  assumes "1 \<le> duration_of (durations s) (mode s)"
  shows "mode (completeInterval now s) = nextMode (completedFocusCount s) (mode s)"
  using tick_finish_mode [of "(fresh s)\<lparr>remainingSeconds := 1\<rparr>" now] fresh_sync [where s = s and r = 1]
  by (simp add: completeInterval_eq [OF assms]) (simp add: fresh_eq)

lemma completeInterval_durations:
  assumes "1 \<le> duration_of (durations s) (mode s)"
  shows "durations (completeInterval now s) = durations s"
  using tick_finish_frame [of "(fresh s)\<lparr>remainingSeconds := 1\<rparr>" now] fresh_sync [where s = s and r = 1]
  by (simp add: completeInterval_eq [OF assms]) (simp add: fresh_eq)

lemma completeInterval_count:
  assumes "1 \<le> duration_of (durations s) (mode s)"
  shows "completedFocusCount (completeInterval now s) =
         completedFocusCount s + (if mode s = Focus then 1 else 0)"
proof (cases "mode s = Focus")
  case True
  with tick_finish_focus [of "(fresh s)\<lparr>remainingSeconds := 1\<rparr>" now] fresh_sync [where s = s and r = 1]
  show ?thesis by (simp add: completeInterval_eq [OF assms]) (simp add: fresh_eq)
next
  case False
  with tick_finish_break [of "(fresh s)\<lparr>remainingSeconds := 1\<rparr>" now] fresh_sync [where s = s and r = 1]
  show ?thesis by (simp add: completeInterval_eq [OF assms]) (simp add: fresh_eq)
qed

lemma duration_of_positive: "durations_positive d \<Longrightarrow> 1 \<le> duration_of d m"
  by (cases m) (simp_all add: durations_positive_def)

lemma takeBreak_props:
  assumes "durations_positive (durations s)" and "mode s \<noteq> Focus"
  shows "mode (takeBreak now b s) = Focus \<and>
         completedFocusCount (takeBreak now b s) = completedFocusCount s \<and>
         durations (takeBreak now b s) = durations s"
proof (cases b)
  case True
  then show ?thesis using assms(2) by (simp add: takeBreak_def handleSkip_def Let_def nextMode_break)
next
  case False
  have pos: "1 \<le> duration_of (durations s) (mode s)"
    using assms(1) by (rule duration_of_positive)
  show ?thesis using False assms(2)
    by (simp add: takeBreak_def completeInterval_mode [OF pos] completeInterval_count [OF pos]
        completeInterval_durations [OF pos] nextMode_break)
qed

lemma pomodoros_props:
  "durations_positive (durations s) \<Longrightarrow> mode s = Focus \<Longrightarrow>
   mode (pomodoros now bs s) = Focus \<and>
   completedFocusCount (pomodoros now bs s) = completedFocusCount s + int (length bs) \<and>
   durations (pomodoros now bs s) = durations s"
proof (induction bs arbitrary: s)
  case Nil
  then show ?case by simp
next
  case (Cons b bs)
  let ?f = "completeInterval now s"
  have pos: "1 \<le> duration_of (durations s) (mode s)"
    using Cons.prems(1) by (rule duration_of_positive)
  have f: "mode ?f \<noteq> Focus" "completedFocusCount ?f = completedFocusCount s + 1"
    "durations ?f = durations s"
    using Cons.prems(2) nextMode_neq [of "completedFocusCount s" Focus]
    by (simp_all add: completeInterval_mode [OF pos] completeInterval_count [OF pos]
        completeInterval_durations [OF pos])
  have t: "mode (takeBreak now b ?f) = Focus"
    "completedFocusCount (takeBreak now b ?f) = completedFocusCount s + 1"
    "durations (takeBreak now b ?f) = durations s"
    using takeBreak_props [of ?f now b] f Cons.prems(1) by simp_all
  from Cons.IH [of "takeBreak now b ?f"] t Cons.prems(1)
  show ?case by simp
qed

lemma nth_focus_break:
  assumes "durations_positive (durations s)" and "mode s = Focus" and "completedFocusCount s = 0"
  shows "mode (completeInterval now (pomodoros now bs s)) =
         (if (length bs + 1) mod 4 = 0 then Long else Short)"
proof -
  let ?p = "pomodoros now bs s"
  have p: "mode ?p = Focus" "completedFocusCount ?p = int (length bs)" "durations ?p = durations s"
    using pomodoros_props [OF assms(1,2), of now bs] assms(3) by simp_all
  have pos: "1 \<le> duration_of (durations ?p) (mode ?p)"
    using assms(1) p(3) by (simp add: duration_of_positive)
  have "(int (length bs) + 1) mod 4 = 0 \<longleftrightarrow> (length bs + 1) mod 4 = 0"
    by presburger
  then show ?thesis
    by (simp add: completeInterval_mode [OF pos] p nextMode_Focus)
qed

text \<open>
  C1: leaving focus mode, by the countdown reaching zero or by skip, leads to the long
  break exactly when \<open>(completedFocusCount + 1) mod 4 = 0\<close> and to the short break
  otherwise, and either break leads to focus.  Counted from zero, the break after the
  \<open>n\<close>-th completed focus interval is long exactly when \<open>n mod 4 = 0\<close>, whether the
  breaks in between were run or skipped.
\<close>

theorem break_rule:
  "nextMode c Focus = (if (c + 1) mod 4 = 0 then Long else Short) \<and>
   nextMode c Short = Focus \<and> nextMode c Long = Focus \<and>
   mode (handleSkip s) = nextMode (completedFocusCount s) (mode s) \<and>
   (reachable s \<and> isRunning s \<and> remainingSeconds s \<le> 1 \<longrightarrow>
      mode (tick now s) = nextMode (completedFocusCount s) (mode s)) \<and>
   (durations_positive (durations s) \<and> mode s = Focus \<and> completedFocusCount s = 0 \<longrightarrow>
      mode (completeInterval now (pomodoros now bs s)) =
        (if (length bs + 1) mod 4 = 0 then Long else Short))"
proof -
  have a: "nextMode c Focus = (if (c + 1) mod 4 = 0 then Long else Short)"
    by (rule nextMode_Focus)
  have b: "nextMode c Short = Focus" "nextMode c Long = Focus"
    by (simp_all add: nextMode_def)
  have c: "mode (handleSkip s) = nextMode (completedFocusCount s) (mode s)"
    by (simp add: handleSkip_def Let_def)
  have d: "reachable s \<and> isRunning s \<and> remainingSeconds s \<le> 1 \<longrightarrow>
      mode (tick now s) = nextMode (completedFocusCount s) (mode s)"
    using reachable_sync tick_finish_mode by blast
  have e: "durations_positive (durations s) \<and> mode s = Focus \<and> completedFocusCount s = 0 \<longrightarrow>
      mode (completeInterval now (pomodoros now bs s)) =
        (if (length bs + 1) mod 4 = 0 then Long else Short)"
    using nth_focus_break by blast
  from a b c d e show ?thesis by blast
qed


theorem break_rule_witness:
  "reachable ((tick 0 ^^ 59) (handleStartPause (idle \<lparr>focus = 1, short = 5, long = 15\<rparr> 3))) \<and>
   isRunning ((tick 0 ^^ 59) (handleStartPause (idle \<lparr>focus = 1, short = 5, long = 15\<rparr> 3))) \<and>
   remainingSeconds ((tick 0 ^^ 59) (handleStartPause (idle \<lparr>focus = 1, short = 5, long = 15\<rparr> 3))) \<le> 1 \<and>
   mode (tick 0 ((tick 0 ^^ 59) (handleStartPause (idle \<lparr>focus = 1, short = 5, long = 15\<rparr> 3)))) = Long \<and>
   durations_positive (durations (idle DEFAULT_DURATIONS 0)) \<and>
   mode (idle DEFAULT_DURATIONS 0) = Focus \<and> completedFocusCount (idle DEFAULT_DURATIONS 0) = 0 \<and>
   mode (completeInterval 0 (pomodoros 0 [True, False, True] (idle DEFAULT_DURATIONS 0))) = Long \<and>
   mode (completeInterval 0 (pomodoros 0 [True, False] (idle DEFAULT_DURATIONS 0))) = Short"
proof -
  let ?m = "idle \<lparr>focus = 1, short = 5, long = 15\<rparr> 3"
  let ?w = "(tick 0 ^^ 59) (handleStartPause ?m)"
  have r: "reachable ?w"
    by (intro reachable_ticks reachable.startPause reachable.mount) (simp_all add: idle_def)
  have run0: "isRunning (handleStartPause ?m)"
    and rem0: "remainingSeconds (handleStartPause ?m) = 60"
    by (simp_all add: handleStartPause_def idle_def)
  have w: "?w = (handleStartPause ?m)\<lparr>remainingSeconds := 1\<rparr>"
    using ticks_counting [OF run0, of 59 0] rem0 by simp
  have w1: "isRunning ?w" "remainingSeconds ?w \<le> 1" "completedFocusCount ?w = 3" "mode ?w = Focus"
    unfolding w by (simp_all add: handleStartPause_def idle_def)
  have p: "durations_positive (durations (idle DEFAULT_DURATIONS 0))"
    "mode (idle DEFAULT_DURATIONS 0) = Focus" "completedFocusCount (idle DEFAULT_DURATIONS 0) = 0"
    by (simp_all add: idle_def DEFAULT_DURATIONS_def durations_positive_def)
  show ?thesis
    using break_rule [of 3 ?w 0 "[True, False, True]"]
      break_rule [of 3 "idle DEFAULT_DURATIONS 0" 0 "[True, False, True]"]
      break_rule [of 3 "idle DEFAULT_DURATIONS 0" 0 "[True, False]"] r w1 p
    by simp
qed

text \<open>
  C2: from a fresh reset in any mode, started, the countdown of \<open>durations[mode] * 60\<close>
  seconds stays in the mode and above zero for every smaller number of ticks; the tick
  that completes the count is the one whose updater returns 0, and it makes the one mode
  transition and stops the timer.  If the completed mode was focus it adds 1 to
  \<open>completedFocusCount\<close> and \<open>durations.focus\<close> to \<open>totalMinutes\<close> and appends one event to
  the log; after a break it changes none of them.
\<close>

theorem full_countdown:
  assumes "1 \<le> duration_of (durations s) (mode s)"
  shows "let d = duration_of (durations s) (mode s); N = nat (d * 60); s0 = fresh s;
             s' = (tick now ^^ N) s0
         in remainingSeconds s0 = d * 60 \<and> isRunning s0 \<and>
            (\<forall>k<N. (tick now ^^ k) s0 = s0\<lparr>remainingSeconds := d * 60 - int k\<rparr>) \<and>
            countdown (remainingSeconds ((tick now ^^ (N - 1)) s0)) = 0 \<and>
            mode s' = nextMode (completedFocusCount s) (mode s) \<and> mode s' \<noteq> mode s \<and>
            \<not> isRunning s' \<and>
            (mode s = Focus \<longrightarrow>
               completedFocusCount s' = completedFocusCount s + 1 \<and>
               totalMinutes s' = totalMinutes s + focus (durations s) \<and>
               focusEvents s' =
                 appendFocusEvent \<lparr>ts = now, category = trim (selectedCategory s),
                                   minutes = focus (durations s)\<rparr> (focusEvents s)) \<and>
            (mode s \<noteq> Focus \<longrightarrow>
               completedFocusCount s' = completedFocusCount s \<and>
               totalMinutes s' = totalMinutes s \<and> focusEvents s' = focusEvents s)"
proof -
  let ?d = "duration_of (durations s) (mode s)"
  let ?N = "nat (?d * 60)"
  let ?l = "(fresh s)\<lparr>remainingSeconds := 1\<rparr>"
  let ?s' = "(tick now ^^ ?N) (fresh s)"
  have s0: "remainingSeconds (fresh s) = ?d * 60" "isRunning (fresh s)"
    by (simp_all add: fresh_eq)
  have before: "\<forall>k<?N. (tick now ^^ k) (fresh s) = (fresh s)\<lparr>remainingSeconds := ?d * 60 - int k\<rparr>"
  proof (intro allI impI)
    fix k assume "k < ?N"
    then have "int k < remainingSeconds (fresh s)" using s0(1) by linarith
    from ticks_counting [OF s0(2) this, of now] s0(1)
    show "(tick now ^^ k) (fresh s) = (fresh s)\<lparr>remainingSeconds := ?d * 60 - int k\<rparr>" by simp
  qed
  have zero: "countdown (remainingSeconds ((tick now ^^ (?N - 1)) (fresh s))) = 0"
    using last_tick_state [OF assms, of now] by (simp add: countdown_def)
  have fin: "?s' = tick now ?l" by (rule all_ticks_state [OF assms])
  have l: "isRunning ?l" "remainingSeconds ?l \<le> 1" "in_sync ?l"
    by (simp_all add: fresh_sync) (simp add: fresh_eq)
  have l': "mode ?l = mode s" "completedFocusCount ?l = completedFocusCount s"
    "totalMinutes ?l = totalMinutes s" "focusEvents ?l = focusEvents s"
    "cap_durations (captured ?l) = durations s"
    "cap_selectedCategory (captured ?l) = selectedCategory s"
    by (simp_all add: fresh_eq capture_def)
  have m: "mode ?s' = nextMode (completedFocusCount s) (mode s)"
    unfolding fin using tick_finish_mode [OF l, of now] l' by simp
  have m': "mode ?s' \<noteq> mode s" unfolding m by (rule nextMode_neq)
  have stop: "\<not> isRunning ?s'"
    unfolding fin using tick_finish_frame [OF l, of now] by simp
  have foc: "mode s = Focus \<longrightarrow>
               completedFocusCount ?s' = completedFocusCount s + 1 \<and>
               totalMinutes ?s' = totalMinutes s + focus (durations s) \<and>
               focusEvents ?s' =
                 appendFocusEvent \<lparr>ts = now, category = trim (selectedCategory s),
                                   minutes = focus (durations s)\<rparr> (focusEvents s)"
    unfolding fin using tick_finish_focus [OF l, of now] l' by simp
  have brk: "mode s \<noteq> Focus \<longrightarrow>
               completedFocusCount ?s' = completedFocusCount s \<and>
               totalMinutes ?s' = totalMinutes s \<and> focusEvents ?s' = focusEvents s"
    unfolding fin using tick_finish_break [OF l, of now] l' by simp
  from s0 before zero m m' stop foc brk show ?thesis unfolding Let_def by blast
qed

theorem full_countdown_witness:
  "1 \<le> duration_of (durations (idle DEFAULT_DURATIONS 3)) (mode (idle DEFAULT_DURATIONS 3)) \<and>
   mode ((tick 7 ^^ 1500) (fresh (idle DEFAULT_DURATIONS 3))) = Long \<and>
   completedFocusCount ((tick 7 ^^ 1500) (fresh (idle DEFAULT_DURATIONS 3))) = 4 \<and>
   totalMinutes ((tick 7 ^^ 1500) (fresh (idle DEFAULT_DURATIONS 3))) = 25 \<and>
   focusEvents ((tick 7 ^^ 1500) (fresh (idle DEFAULT_DURATIONS 3))) =
     [\<lparr>ts = 7, category = ''Genel'', minutes = 25\<rparr>] \<and>
   (tick 7 ^^ 1499) (fresh (idle DEFAULT_DURATIONS 3)) =
     (fresh (idle DEFAULT_DURATIONS 3))\<lparr>remainingSeconds := 1\<rparr>"
proof -
  have h: "1 \<le> duration_of (durations (idle DEFAULT_DURATIONS 3)) (mode (idle DEFAULT_DURATIONS 3))"
    by (simp add: idle_def DEFAULT_DURATIONS_def)
  have n: "nat (duration_of (durations (idle DEFAULT_DURATIONS 3)) (mode (idle DEFAULT_DURATIONS 3)) * 60)
           = 1500"
    by (simp add: idle_def DEFAULT_DURATIONS_def)
  have t: "trim ''Genel'' = ''Genel''" by (simp add: trim_def is_space_def)
  have i: "mode (idle DEFAULT_DURATIONS 3) = Focus" "completedFocusCount (idle DEFAULT_DURATIONS 3) = 3"
    "totalMinutes (idle DEFAULT_DURATIONS 3) = 0" "focusEvents (idle DEFAULT_DURATIONS 3) = []"
    "selectedCategory (idle DEFAULT_DURATIONS 3) = ''Genel''"
    "focus (durations (idle DEFAULT_DURATIONS 3)) = 25"
    by (simp_all add: idle_def DEFAULT_DURATIONS_def)
  from full_countdown [OF h, of 7]
  show ?thesis
    unfolding Let_def n by (simp add: h i t nextMode_Focus appendFocusEvent_def)
qed

subsection \<open>Skipping\<close>

text \<open>
  C3: in every mode, skip leaves \<open>completedFocusCount\<close>, \<open>totalMinutes\<close>, the category-minutes
  cache and the focus-event log as they are (and the durations and the selected category
  too); it stops the timer and moves to the next mode with that mode's full countdown.
\<close>

theorem skip_frame:
  "completedFocusCount (handleSkip s) = completedFocusCount s \<and>
   totalMinutes (handleSkip s) = totalMinutes s \<and>
   categoryMinutes (handleSkip s) = categoryMinutes s \<and>
   focusEvents (handleSkip s) = focusEvents s \<and>
   durations (handleSkip s) = durations s \<and>
   selectedCategory (handleSkip s) = selectedCategory s \<and>
   \<not> isRunning (handleSkip s) \<and>
   mode (handleSkip s) = nextMode (completedFocusCount s) (mode s) \<and>
   remainingSeconds (handleSkip s) =
     duration_of (durations (handleSkip s)) (mode (handleSkip s)) * 60"
  by (simp add: handleSkip_def Let_def)

subsection \<open>The cap on the event log\<close>

lemma appendFocusEvent_eq:
  "appendFocusEvent ev events = drop (length events + 1 - 1000) (events @ [ev])"
  by (simp add: appendFocusEvent_def Let_def)

lemma appendFocusEvent_length:
  "length (appendFocusEvent ev events) = min 1000 (length events + 1)"
  by (simp add: appendFocusEvent_def Let_def)

lemma appendAll_eq:
  "length es \<le> 1000 \<Longrightarrow>
   foldl (\<lambda>acc e. appendFocusEvent e acc) es evs =
   drop (length es + length evs - 1000) (es @ evs)"
proof (induction evs arbitrary: es)
  case Nil
  then show ?case by simp
next
  case (Cons e evs)
  have len: "length (appendFocusEvent e es) \<le> 1000"
    by (simp add: appendFocusEvent_length)
  show ?case
  proof (cases "length es < 1000")
    case True
    then have "appendFocusEvent e es = es @ [e]" by (simp add: appendFocusEvent_def Let_def)
    with Cons.IH [OF len] show ?thesis by simp
  next
    case False
    with Cons.prems have l: "length es = 1000" by simp
    then obtain x xs where es: "es = x # xs" by (cases es) auto
    have a: "appendFocusEvent e es = xs @ [e]"
      using l by (simp add: appendFocusEvent_def Let_def es)
    have "foldl (\<lambda>acc e. appendFocusEvent e acc) (xs @ [e]) evs =
          drop (length (xs @ [e]) + length evs - 1000) ((xs @ [e]) @ evs)"
      using Cons.IH [OF len] by (simp only: a)
    moreover have "length (xs @ [e]) = 1000" using l es by simp
    ultimately have "foldl (\<lambda>acc e. appendFocusEvent e acc) (xs @ [e]) evs =
          drop (length evs) (xs @ e # evs)"
      by simp
    moreover have "drop (length es + length (e # evs) - 1000) (es @ e # evs) =
          drop (length evs) (xs @ e # evs)"
      using l by (simp add: es)
    ultimately show ?thesis by (simp add: a)
  qed
qed

text \<open>
  C4: an event is appended at the end of the log; below 1000 entries nothing else happens,
  and appending to a log of 1000 drops exactly the first, oldest entry and keeps the
  other 999 in their order before the new one, so 1000 remain.  Appending a whole sequence
  to the empty log leaves its last 1000 entries.
\<close>

theorem event_log_cap:
  "(length events < 1000 \<longrightarrow> appendFocusEvent ev events = events @ [ev]) \<and>
   (length events = 1000 \<longrightarrow>
      appendFocusEvent ev events = tl events @ [ev] \<and>
      length (appendFocusEvent ev events) = 1000 \<and>
      (distinct (events @ [ev]) \<longrightarrow> hd events \<notin> set (appendFocusEvent ev events))) \<and>
   (length events \<le> 1000 \<longrightarrow> length (appendFocusEvent ev events) \<le> 1000) \<and>
   foldl (\<lambda>acc e. appendFocusEvent e acc) [] evs = drop (length evs - 1000) evs"
proof -
  have a: "length events < 1000 \<longrightarrow> appendFocusEvent ev events = events @ [ev]"
    by (simp add: appendFocusEvent_def Let_def)
  have b: "length events = 1000 \<longrightarrow>
      appendFocusEvent ev events = tl events @ [ev] \<and>
      length (appendFocusEvent ev events) = 1000 \<and>
      (distinct (events @ [ev]) \<longrightarrow> hd events \<notin> set (appendFocusEvent ev events))"
  proof
    assume l: "length events = 1000"
    then obtain x xs where e: "events = x # xs" by (cases events) auto
    have eq: "appendFocusEvent ev events = tl events @ [ev]"
      using l by (simp add: appendFocusEvent_def Let_def e)
    have "distinct (events @ [ev]) \<longrightarrow> hd events \<notin> set (tl events @ [ev])"
      by (auto simp: e)
    with eq l show "appendFocusEvent ev events = tl events @ [ev] \<and>
      length (appendFocusEvent ev events) = 1000 \<and>
      (distinct (events @ [ev]) \<longrightarrow> hd events \<notin> set (appendFocusEvent ev events))"
      by (simp add: e)
  qed
  have c: "length events \<le> 1000 \<longrightarrow> length (appendFocusEvent ev events) \<le> 1000"
    by (simp add: appendFocusEvent_length)
  have d: "foldl (\<lambda>acc e. appendFocusEvent e acc) [] evs = drop (length evs - 1000) evs"
    using appendAll_eq [of "[]" evs] by simp
  from a b c d show ?thesis by blast
qed

theorem event_log_cap_witness:
  "length (map (\<lambda>i. \<lparr>ts = int i, category = ''Genel'', minutes = 25\<rparr>) [0..<1000]) = 1000 \<and>
   distinct (map (\<lambda>i. \<lparr>ts = int i, category = ''Genel'', minutes = 25\<rparr>) [0..<1000]
             @ [\<lparr>ts = 1000, category = ''Genel'', minutes = 25\<rparr>]) \<and>
   appendFocusEvent \<lparr>ts = 1000, category = ''Genel'', minutes = 25\<rparr>
     (map (\<lambda>i. \<lparr>ts = int i, category = ''Genel'', minutes = 25\<rparr>) [0..<1000]) =
     map (\<lambda>i. \<lparr>ts = int i, category = ''Genel'', minutes = 25\<rparr>) [1..<1000]
     @ [\<lparr>ts = 1000, category = ''Genel'', minutes = 25\<rparr>] \<and>
   \<lparr>ts = 0, category = ''Genel'', minutes = 25\<rparr> \<notin>
     set (appendFocusEvent \<lparr>ts = 1000, category = ''Genel'', minutes = 25\<rparr>
       (map (\<lambda>i. \<lparr>ts = int i, category = ''Genel'', minutes = 25\<rparr>) [0..<1000])) \<and>
   appendFocusEvent \<lparr>ts = 1, category = ''Genel'', minutes = 25\<rparr>
     [\<lparr>ts = 0, category = ''Genel'', minutes = 25\<rparr>] =
     [\<lparr>ts = 0, category = ''Genel'', minutes = 25\<rparr>, \<lparr>ts = 1, category = ''Genel'', minutes = 25\<rparr>]"
proof -
  let ?f = "\<lambda>i. \<lparr>ts = int i, category = ''Genel'', minutes = 25\<rparr>"
  let ?E = "map ?f [0..<1000]"
  let ?e = "\<lparr>ts = 1000, category = ''Genel'', minutes = 25\<rparr>"
  have l: "length ?E = 1000" by (simp del: upt_rec_numeral)
  have d: "distinct (?E @ [?e])"
    by (auto simp: distinct_map inj_on_def simp del: upt_rec_numeral)
  have "tl [0..<1000] = [1..<1000]"
    by (simp del: upt_rec_numeral)
  then have t: "tl ?E = map ?f [1..<1000]"
    by (simp add: map_tl [symmetric] del: upt_rec_numeral)
  have "hd [0..<1000] = (0::nat)"
    by (simp del: upt_rec_numeral)
  moreover have "[0..<1000] \<noteq> []" by (simp del: upt_rec_numeral)
  ultimately have h: "hd ?E = \<lparr>ts = 0, category = ''Genel'', minutes = 25\<rparr>"
    by (simp add: hd_map del: upt_rec_numeral)
  from event_log_cap [of ?E ?e "[]"] l d
  have a: "appendFocusEvent ?e ?E = tl ?E @ [?e]" "hd ?E \<notin> set (appendFocusEvent ?e ?E)"
    by blast+
  have b: "appendFocusEvent \<lparr>ts = 1, category = ''Genel'', minutes = 25\<rparr>
     [\<lparr>ts = 0, category = ''Genel'', minutes = 25\<rparr>] =
     [\<lparr>ts = 0, category = ''Genel'', minutes = 25\<rparr>, \<lparr>ts = 1, category = ''Genel'', minutes = 25\<rparr>]"
    using event_log_cap [of "[\<lparr>ts = 0, category = ''Genel'', minutes = 25\<rparr>]"
      "\<lparr>ts = 1, category = ''Genel'', minutes = 25\<rparr>" "[]"] by simp
  from l d a [unfolded t h] b show ?thesis by blast
qed

subsection \<open>Editing a duration\<close>

text \<open>
  C10: every edit of a duration, also of a mode other than the current one, sets
  \<open>remainingSeconds\<close> to \<open>durations[mode] * 60\<close> and leaves \<open>mode\<close> and \<open>isRunning\<close> as they
  are; when the edited field is not the current mode's, the countdown restarts from the
  unchanged duration.
\<close>

theorem duration_edit_restarts:
  "remainingSeconds (onChangeDuration field v s) =
     duration_of (durations (onChangeDuration field v s)) (mode s) * 60 \<and>
   mode (onChangeDuration field v s) = mode s \<and>
   isRunning (onChangeDuration field v s) = isRunning s \<and>
   duration_of (durations (onChangeDuration field v s)) field = clampMinutes v \<and>
   (field \<noteq> mode s \<longrightarrow>
      duration_of (durations (onChangeDuration field v s)) (mode s) =
        duration_of (durations s) (mode s) \<and>
      remainingSeconds (onChangeDuration field v s) = duration_of (durations s) (mode s) * 60)"
  by (cases field; cases "mode s") (simp_all add: onChangeDuration_def Let_def)

theorem duration_edit_restarts_witness:
  "Short \<noteq> mode ((idle DEFAULT_DURATIONS 0)\<lparr>isRunning := True, remainingSeconds := 300\<rparr>) \<and>
   remainingSeconds (onChangeDuration Short (Some 7)
     ((idle DEFAULT_DURATIONS 0)\<lparr>isRunning := True, remainingSeconds := 300\<rparr>)) = 1500 \<and>
   isRunning (onChangeDuration Short (Some 7)
     ((idle DEFAULT_DURATIONS 0)\<lparr>isRunning := True, remainingSeconds := 300\<rparr>)) \<and>
   mode (onChangeDuration Short (Some 7)
     ((idle DEFAULT_DURATIONS 0)\<lparr>isRunning := True, remainingSeconds := 300\<rparr>)) = Focus"
  using duration_edit_restarts [of Short "Some 7"
      "(idle DEFAULT_DURATIONS 0)\<lparr>isRunning := True, remainingSeconds := 300\<rparr>"]
  by (simp add: idle_def DEFAULT_DURATIONS_def)

section \<open>Properties of the statistics store\<close>

subsection \<open>The cache and the log\<close>

lemma map_of_set_prop: "map_of (set_prop m k v) = (map_of m)(k \<mapsto> v)"
  by (induction m) (auto simp: fun_eq_iff)

lemma get_minutes_set_prop:
  "get_minutes (set_prop m k v) k' = (if k' = k then v else get_minutes m k')"
  by (simp add: get_minutes_def map_of_set_prop)

lemma get_minutes_add_minutes:
  "get_minutes (add_minutes m l x) l' = get_minutes m l' + (if l' = l then x else 0)"
  by (simp add: add_minutes_def get_minutes_set_prop)

lemma get_minutes_track:
  "0 \<le> get_minutes m l + x \<Longrightarrow> map_of m ''__proto__'' = None \<Longrightarrow>
   get_minutes (trackCategoryMinutes l x m) l' =
     get_minutes m l' + (if l' = l \<and> l \<noteq> ''__proto__'' then x else 0)"
  by (simp add: trackCategoryMinutes_def assign_prop_def get_minutes_set_prop)

lemma map_of_track_proto:
  "map_of m ''__proto__'' = None \<Longrightarrow>
   map_of (trackCategoryMinutes l x m) ''__proto__'' = None"
  by (simp add: trackCategoryMinutes_def assign_prop_def map_of_set_prop)

lemma get_minutes_replay_from:
  "get_minutes (foldl (\<lambda>m ev. add_minutes m (category ev) (minutes ev)) m0 events) l =
   get_minutes m0 l + minutesOf events l"
  by (induction events arbitrary: m0) (auto simp: get_minutes_add_minutes minutesOf_def)

lemma get_minutes_replayLog: "get_minutes (replayLog events) l = minutesOf events l"
  by (simp add: replayLog_def get_minutes_replay_from) (simp add: get_minutes_def)

lemma minutesOf_append: "minutesOf (xs @ ys) l = minutesOf xs l + minutesOf ys l"
  by (simp add: minutesOf_def)

lemma minutesOf_nonneg: "\<forall>e\<in>set events. 0 \<le> minutes e \<Longrightarrow> 0 \<le> minutesOf events l"
  by (induction events) (auto simp: minutesOf_def)

lemma recordAll_Cons:
  "recordAll (c # cs) st = recordAll cs (recordCompletion (fst c) (fst (snd c)) (snd (snd c)) st)"
  by (simp add: recordAll_def)

lemma recordAll_log:
  "snd (recordAll cs st) = foldl (\<lambda>acc e. appendFocusEvent e acc) (snd st) (map event_of cs)"
  by (induction cs arbitrary: st)
     (simp_all add: recordAll_Cons, simp_all add: recordAll_def recordCompletion_def event_of_def)

lemma recordAll_cache:
  "\<forall>c\<in>set cs. 0 \<le> snd (snd c) \<Longrightarrow> \<forall>l. 0 \<le> get_minutes (fst st) l \<Longrightarrow>
   map_of (fst st) ''__proto__'' = None \<Longrightarrow>
   map_of (fst (recordAll cs st)) ''__proto__'' = None \<and>
   (l \<noteq> ''__proto__'' \<longrightarrow>
      get_minutes (fst (recordAll cs st)) l =
        get_minutes (fst st) l + minutesOf (map event_of cs) l)"
proof (induction cs arbitrary: st)
  case Nil
  then show ?case by (simp add: recordAll_def minutesOf_def)
next
  case (Cons c cs)
  let ?st = "recordCompletion (fst c) (fst (snd c)) (snd (snd c)) st"
  have c: "0 \<le> snd (snd c)" using Cons.prems(1) by simp
  have step: "get_minutes (fst ?st) l' =
              get_minutes (fst st) l' +
              (if l' = fst (snd c) \<and> fst (snd c) \<noteq> ''__proto__'' then snd (snd c) else 0)" for l'
    using Cons.prems(2,3) c by (simp add: recordCompletion_def get_minutes_track)
  have nn: "\<forall>l. 0 \<le> get_minutes (fst ?st) l"
    using Cons.prems(2) c by (simp add: step)
  have pr: "map_of (fst ?st) ''__proto__'' = None"
    using Cons.prems(3) by (simp add: recordCompletion_def map_of_track_proto)
  have rest: "\<forall>c\<in>set cs. 0 \<le> snd (snd c)" using Cons.prems(1) by simp
  note ih = Cons.IH [OF rest nn pr]
  have "l \<noteq> ''__proto__'' \<longrightarrow>
        get_minutes (fst (recordAll (c # cs) st)) l =
          get_minutes (fst st) l + minutesOf (map event_of (c # cs)) l"
  proof
    assume l: "l \<noteq> ''__proto__''"
    with ih have "get_minutes (fst (recordAll cs ?st)) l =
                  get_minutes (fst ?st) l + minutesOf (map event_of cs) l" by simp
    then show "get_minutes (fst (recordAll (c # cs) st)) l =
          get_minutes (fst st) l + minutesOf (map event_of (c # cs)) l"
      using l by (simp add: recordAll_Cons step) (auto simp: minutesOf_def event_of_def)
  qed
  with ih show ?case by (simp add: recordAll_Cons)
qed

lemma recordAll_log_empty:
  "snd (recordAll cs ([], [])) = drop (length cs - 1000) (map event_of cs)"
  using appendAll_eq [of "[]" "map event_of cs"] by (simp add: recordAll_log)

lemma minutesOf_drop:
  assumes "\<forall>e\<in>set events. 0 \<le> minutes e"
  shows "minutesOf (drop k events) l \<le> minutesOf events l"
proof -
  have "\<forall>e\<in>set (take k events). 0 \<le> minutes e"
    using assms by (auto dest: in_set_takeD)
  then have "0 \<le> minutesOf (take k events) l" by (rule minutesOf_nonneg)
  moreover have "minutesOf events l = minutesOf (take k events) l + minutesOf (drop k events) l"
    using minutesOf_append [of "take k events" "drop k events" l] by simp
  ultimately show ?thesis by simp
qed

lemma tick_stores:
  "(categoryMinutes (tick now s), focusEvents (tick now s)) =
   (if isRunning s \<and> remainingSeconds s \<le> 1 \<and> cap_mode (captured s) = Focus
    then recordCompletion now (trim (cap_selectedCategory (captured s)))
           (focus (cap_durations (captured s))) (categoryMinutes s, focusEvents s)
    else (categoryMinutes s, focusEvents s))"
  by (simp add: tick_def Let_def onFinish_def recordCompletion_def)

lemma handlers_keep_stores:
  "categoryMinutes (handleStartPause s) = categoryMinutes s \<and>
   focusEvents (handleStartPause s) = focusEvents s \<and>
   categoryMinutes (handleReset s) = categoryMinutes s \<and>
   focusEvents (handleReset s) = focusEvents s \<and>
   categoryMinutes (handleSkip s) = categoryMinutes s \<and>
   focusEvents (handleSkip s) = focusEvents s \<and>
   categoryMinutes (onChangeDuration field v s) = categoryMinutes s \<and>
   focusEvents (onChangeDuration field v s) = focusEvents s \<and>
   categoryMinutes (setSelectedCategory c s) = categoryMinutes s \<and>
   focusEvents (setSelectedCategory c s) = focusEvents s"
  by (simp add: handleStartPause_def handleReset_def handleSkip_def onChangeDuration_def
      setSelectedCategory_def Let_def)

text \<open>
  C5, as the code has it: recording is additive and updates cache and log together, and
  for every label but \<^verbatim>\<open>__proto__\<close> the cache equals the replay of every event ever
  recorded.  The log keeps only the last 1000 of them, so for such a label replaying the
  log equals the cache as long as at most 1000 completions (of non-negative minutes, from
  empty stores) have been recorded; after that the replay of the log can only be smaller
  than the cache.  Minutes recorded under the label \<^verbatim>\<open>__proto__\<close> reach the log and never the
  cache.  The finishing tick of a focus interval is the one place where the engine
  records, and it records once.
\<close>

theorem cache_matches_log_until_eviction:
  assumes "\<forall>c\<in>set cs. 0 \<le> snd (snd c)"
  shows "snd (recordAll cs ([], [])) = drop (length cs - 1000) (map event_of cs) \<and>
         (\<forall>l. l \<noteq> ''__proto__'' \<longrightarrow>
               get_minutes (fst (recordAll cs ([], []))) l =
               get_minutes (replayLog (map event_of cs)) l) \<and>
         (length cs \<le> 1000 \<longrightarrow>
            (\<forall>l. l \<noteq> ''__proto__'' \<longrightarrow>
                  get_minutes (fst (recordAll cs ([], []))) l =
                  get_minutes (replayLog (snd (recordAll cs ([], [])))) l)) \<and>
         (\<forall>l. l \<noteq> ''__proto__'' \<longrightarrow>
               get_minutes (replayLog (snd (recordAll cs ([], [])))) l \<le>
               get_minutes (fst (recordAll cs ([], []))) l) \<and>
         map_of (fst (recordAll cs ([], []))) ''__proto__'' = None \<and>
         get_minutes (fst (recordAll cs ([], []))) ''__proto__'' = 0 \<and>
         (categoryMinutes (tick now s), focusEvents (tick now s)) =
           (if isRunning s \<and> remainingSeconds s \<le> 1 \<and> cap_mode (captured s) = Focus
            then recordCompletion now (trim (cap_selectedCategory (captured s)))
                   (focus (cap_durations (captured s))) (categoryMinutes s, focusEvents s)
            else (categoryMinutes s, focusEvents s))"
proof -
  have log: "snd (recordAll cs ([], [])) = drop (length cs - 1000) (map event_of cs)"
    by (rule recordAll_log_empty)
  have e: "\<forall>l. 0 \<le> get_minutes (fst ([], [])) l" "map_of (fst ([], [])) ''__proto__'' = None"
    by (simp_all add: get_minutes_def)
  have pr: "map_of (fst (recordAll cs ([], []))) ''__proto__'' = None"
    using recordAll_cache [OF assms e] by simp
  then have pr0: "get_minutes (fst (recordAll cs ([], []))) ''__proto__'' = 0"
    by (simp add: get_minutes_def)
  have cache: "get_minutes (fst (recordAll cs ([], []))) l = minutesOf (map event_of cs) l"
    if "l \<noteq> ''__proto__''" for l
    using recordAll_cache [OF assms e, of l] that by (simp add: get_minutes_def)
  have a: "\<forall>l. l \<noteq> ''__proto__'' \<longrightarrow>
               get_minutes (fst (recordAll cs ([], []))) l =
               get_minutes (replayLog (map event_of cs)) l"
    by (simp add: cache get_minutes_replayLog)
  have b: "length cs \<le> 1000 \<longrightarrow>
            (\<forall>l. l \<noteq> ''__proto__'' \<longrightarrow>
                  get_minutes (fst (recordAll cs ([], []))) l =
                  get_minutes (replayLog (snd (recordAll cs ([], [])))) l)"
    by (simp add: cache get_minutes_replayLog log)
  have nn: "\<forall>e\<in>set (map event_of cs). 0 \<le> minutes e"
    using assms by (auto simp: event_of_def)
  have c: "\<forall>l. l \<noteq> ''__proto__'' \<longrightarrow>
               get_minutes (replayLog (snd (recordAll cs ([], [])))) l \<le>
               get_minutes (fst (recordAll cs ([], []))) l"
    using minutesOf_drop [OF nn] by (simp add: cache get_minutes_replayLog log)
  from log a b c pr pr0 tick_stores [of now s] show ?thesis by blast
qed

theorem cache_matches_log_until_eviction_witness:
  "length [(10::int, ''Genel'', 25::int), (20, ''__proto__'', 30), (30, ''Genel'', 25)] \<le> 1000 \<and>
   ''Genel'' \<noteq> ''__proto__'' \<and>
   get_minutes (fst (recordAll [(10::int, ''Genel'', 25::int), (20, ''__proto__'', 30), (30, ''Genel'', 25)]
                      ([], []))) ''Genel'' =
   get_minutes (replayLog (snd (recordAll [(10::int, ''Genel'', 25::int), (20, ''__proto__'', 30), (30, ''Genel'', 25)]
                      ([], [])))) ''Genel'' \<and>
   get_minutes (fst (recordAll [(10::int, ''Genel'', 25::int), (20, ''__proto__'', 30), (30, ''Genel'', 25)]
                      ([], []))) ''Genel'' = 50 \<and>
   fst (recordAll [(10::int, ''Genel'', 25::int), (20, ''__proto__'', 30), (30, ''Genel'', 25)] ([], [])) =
     [(''Genel'', 50)] \<and>
   get_minutes (fst (recordAll [(10::int, ''Genel'', 25::int), (20, ''__proto__'', 30), (30, ''Genel'', 25)]
                      ([], []))) ''__proto__'' = 0 \<and>
   get_minutes (replayLog (snd (recordAll [(10::int, ''Genel'', 25::int), (20, ''__proto__'', 30), (30, ''Genel'', 25)]
                      ([], [])))) ''__proto__'' = 30"
proof -
  let ?cs = "[(10::int, ''Genel'', 25::int), (20, ''__proto__'', 30), (30, ''Genel'', 25)]"
  have h: "\<forall>c\<in>set ?cs. 0 \<le> snd (snd c)" by simp
  have n: "''Genel'' \<noteq> ''__proto__''" by simp
  have v: "fst (recordAll ?cs ([], [])) = [(''Genel'', 50)]"
    by (simp add: recordAll_def recordCompletion_def trackCategoryMinutes_def assign_prop_def
        get_minutes_def)
  have g: "get_minutes [(''Genel'', 50)] ''Genel'' = 50" by (simp add: get_minutes_def)
  have r: "get_minutes (replayLog (snd (recordAll ?cs ([], [])))) ''__proto__'' = 30"
    by (simp add: get_minutes_replayLog recordAll_log_empty event_of_def minutesOf_def)
  from cache_matches_log_until_eviction [OF h, of 0 "idle DEFAULT_DURATIONS 0"]
  have "get_minutes (fst (recordAll ?cs ([], []))) ''Genel'' =
        get_minutes (replayLog (snd (recordAll ?cs ([], [])))) ''Genel''"
    and "get_minutes (fst (recordAll ?cs ([], []))) ''__proto__'' = 0"
    using n by simp_all
  with n v g r show ?thesis by simp
qed

text \<open>
  After 1001 completed focus intervals of 25 minutes the cache holds 25025 minutes for the
  category and the log, one event short, replays to 25000.
\<close>

lemma completeInterval_stores:
  assumes "1 \<le> duration_of (durations s) (mode s)"
  shows "(categoryMinutes (completeInterval now s), focusEvents (completeInterval now s)) =
         (if mode s = Focus
          then recordCompletion now (trim (selectedCategory s)) (focus (durations s))
                 (categoryMinutes s, focusEvents s)
          else (categoryMinutes s, focusEvents s))"
  unfolding completeInterval_eq [OF assms] tick_stores
  by (simp add: fresh_eq capture_def)

lemma completeInterval_category:
  assumes "1 \<le> duration_of (durations s) (mode s)"
  shows "selectedCategory (completeInterval now s) = selectedCategory s"
  using tick_finish_frame [of "(fresh s)\<lparr>remainingSeconds := 1\<rparr>" now]
    fresh_sync [where s = s and r = 1]
  by (simp add: completeInterval_eq [OF assms]) (simp add: fresh_eq)

lemma takeBreak_stores:
  assumes "durations_positive (durations s)" and "mode s \<noteq> Focus"
  shows "categoryMinutes (takeBreak now b s) = categoryMinutes s \<and>
         focusEvents (takeBreak now b s) = focusEvents s \<and>
         selectedCategory (takeBreak now b s) = selectedCategory s"
proof (cases b)
  case True
  then show ?thesis by (simp add: takeBreak_def handleSkip_def Let_def)
next
  case False
  have pos: "1 \<le> duration_of (durations s) (mode s)"
    using assms(1) by (rule duration_of_positive)
  from completeInterval_stores [OF pos, of now] completeInterval_category [OF pos, of now]
  show ?thesis using False assms(2) by (simp add: takeBreak_def)
qed

lemma pomodoros_stores:
  "durations_positive (durations s) \<Longrightarrow> mode s = Focus \<Longrightarrow>
   (categoryMinutes (pomodoros now bs s), focusEvents (pomodoros now bs s)) =
     recordAll (replicate (length bs) (now, trim (selectedCategory s), focus (durations s)))
       (categoryMinutes s, focusEvents s)"
proof (induction bs arbitrary: s)
  case Nil
  then show ?case by (simp add: recordAll_def)
next
  case (Cons b bs)
  let ?f = "completeInterval now s"
  let ?t = "takeBreak now b ?f"
  have pos: "1 \<le> duration_of (durations s) (mode s)"
    using Cons.prems(1) by (rule duration_of_positive)
  have f: "mode ?f \<noteq> Focus" "durations ?f = durations s"
    using Cons.prems(2) nextMode_neq [of "completedFocusCount s" Focus]
    by (simp_all add: completeInterval_mode [OF pos] completeInterval_durations [OF pos])
  have fpos: "durations_positive (durations ?f)" using f(2) Cons.prems(1) by simp
  have t: "mode ?t = Focus" "durations ?t = durations s"
    using takeBreak_props [OF fpos f(1), of now b] f(2) by simp_all
  have st: "(categoryMinutes ?t, focusEvents ?t) =
            recordCompletion now (trim (selectedCategory s)) (focus (durations s))
              (categoryMinutes s, focusEvents s)"
    using takeBreak_stores [OF fpos f(1), of now b] completeInterval_stores [OF pos, of now]
      Cons.prems(2) by simp
  have cat: "selectedCategory ?t = selectedCategory s"
    using takeBreak_stores [OF fpos f(1), of now b] completeInterval_category [OF pos, of now]
    by simp
  have "(categoryMinutes (pomodoros now bs ?t), focusEvents (pomodoros now bs ?t)) =
        recordAll (replicate (length bs) (now, trim (selectedCategory s), focus (durations s)))
          (categoryMinutes ?t, focusEvents ?t)"
    using Cons.IH [of ?t] t Cons.prems(1) cat by simp
  then show ?case by (simp add: recordAll_Cons st)
qed

lemma minutesOf_replicate:
  "minutesOf (replicate n e) l = (if category e = l then int n * minutes e else 0)"
  by (induction n) (auto simp: minutesOf_def algebra_simps)

theorem cache_exceeds_log_after_eviction:
  "get_minutes (categoryMinutes (pomodoros 0 (replicate 1001 True) (idle DEFAULT_DURATIONS 0)))
     ''Genel'' = 25025 \<and>
   get_minutes (replayLog (focusEvents (pomodoros 0 (replicate 1001 True) (idle DEFAULT_DURATIONS 0))))
     ''Genel'' = 25000 \<and>
   get_minutes (categoryMinutes (pomodoros 0 (replicate 1001 True) (idle DEFAULT_DURATIONS 0)))
     ''Genel'' \<noteq>
   get_minutes (replayLog (focusEvents (pomodoros 0 (replicate 1001 True) (idle DEFAULT_DURATIONS 0))))
     ''Genel''"
proof -
  let ?s = "idle DEFAULT_DURATIONS 0"
  let ?c = "(0::int, ''Genel'', 25::int)"
  let ?p = "pomodoros 0 (replicate 1001 True) ?s"
  have i: "durations_positive (durations ?s)" "mode ?s = Focus"
    by (simp_all add: idle_def DEFAULT_DURATIONS_def durations_positive_def)
  have v: "trim (selectedCategory ?s) = ''Genel''" "focus (durations ?s) = 25"
    "categoryMinutes ?s = []" "focusEvents ?s = []"
    by (simp_all add: idle_def DEFAULT_DURATIONS_def trim_def is_space_def)
  have st: "(categoryMinutes ?p, focusEvents ?p) = recordAll (replicate 1001 ?c) ([], [])"
    using pomodoros_stores [OF i, of 0 "replicate 1001 True"] by (simp add: v)
  have nn: "\<forall>c\<in>set (replicate 1001 ?c). 0 \<le> snd (snd c)" by simp
  have "get_minutes (fst (recordAll (replicate 1001 ?c) ([], []))) ''Genel'' = 25025"
    using recordAll_cache [OF nn, of "([], [])" "''Genel''"]
    by (simp add: minutesOf_replicate event_of_def get_minutes_def)
  moreover have "snd (recordAll (replicate 1001 ?c) ([], [])) =
                 replicate 1000 \<lparr>ts = 0, category = ''Genel'', minutes = 25\<rparr>"
    by (simp add: recordAll_log_empty event_of_def)
  then have "get_minutes (replayLog (snd (recordAll (replicate 1001 ?c) ([], [])))) ''Genel'' = 25000"
    by (simp add: get_minutes_replayLog minutesOf_replicate)
  ultimately have "get_minutes (categoryMinutes ?p) ''Genel'' = 25025"
    "get_minutes (replayLog (focusEvents ?p)) ''Genel'' = 25000"
    using st by (metis fst_conv, metis snd_conv)
  then show ?thesis by simp
qed

section \<open>Properties of configuration and loading\<close>

subsection \<open>The range of the durations\<close>

lemma clampMinutes_range: "1 \<le> clampMinutes v \<and> clampMinutes v \<le> 180"
  by (simp add: clampMinutes_def split: option.splits)

lemma tick_durations: "durations (tick now s) = durations s"
  by (simp add: tick_def Let_def onFinish_def)

lemma set_duration_ok:
  "durations_ok d \<Longrightarrow> 1 \<le> v \<Longrightarrow> v \<le> 180 \<Longrightarrow> durations_ok (set_duration d field v)"
  by (cases field) (simp_all add: durations_ok_def)

lemma duration_of_set_duration: "duration_of (set_duration d field v) field = v"
  by (cases field) simp_all

lemma spread_in_range:
  assumes "case named_prop parsed ''focus'' of None \<Rightarrow> True | Some x \<Rightarrow> in_range x"
    and "case named_prop parsed ''short'' of None \<Rightarrow> True | Some x \<Rightarrow> in_range x"
    and "case named_prop parsed ''long'' of None \<Rightarrow> True | Some x \<Rightarrow> in_range x"
    and "raw_ok prev"
  shows "raw_ok (spread prev parsed)"
  using assms by (auto simp: raw_ok_def spread_def split: option.splits)

lemma raw_ok_default: "raw_ok (raw_of DEFAULT_DURATIONS)"
  by (simp add: raw_ok_def raw_of_def DEFAULT_DURATIONS_def in_range_def)

lemma loadDurations_object:
  assumes "is_object parsed"
  shows "raw_focus (loadDurations (Parsed parsed)) =
           (case named_prop parsed ''focus'' of Some x \<Rightarrow> x | None \<Rightarrow> JNum 25) \<and>
         raw_short (loadDurations (Parsed parsed)) =
           (case named_prop parsed ''short'' of Some x \<Rightarrow> x | None \<Rightarrow> JNum 5) \<and>
         raw_long (loadDurations (Parsed parsed)) =
           (case named_prop parsed ''long'' of Some x \<Rightarrow> x | None \<Rightarrow> JNum 15)"
  using assms
  by (simp add: loadDurations_def spread_def raw_of_def DEFAULT_DURATIONS_def
      split: option.splits)

lemma loadDurations_ok_iff:
  assumes "is_object parsed"
  shows "raw_ok (loadDurations (Parsed parsed)) \<longleftrightarrow>
         (case named_prop parsed ''focus'' of None \<Rightarrow> True | Some x \<Rightarrow> in_range x) \<and>
         (case named_prop parsed ''short'' of None \<Rightarrow> True | Some x \<Rightarrow> in_range x) \<and>
         (case named_prop parsed ''long'' of None \<Rightarrow> True | Some x \<Rightarrow> in_range x)"
  unfolding raw_ok_def using loadDurations_object [OF assms]
  by (auto simp: in_range_def split: option.splits)

text \<open>
  C6, as the code has it: a settings input always yields a value in \<open>[1, 180]\<close>, an empty
  or non-numeric input giving 1, so the edited duration is in range whatever it was
  before; the defaults are in range, and every handler and the tick keep all three
  durations in range once they are.  Loading does not clamp: it gives the defaults for an
  absent, corrupt or non-object cell, and otherwise each loaded duration is exactly the
  stored field of its name, or the default where the stored object has none, so the
  loaded record is in range if and only if every stored field is.
\<close>

theorem durations_in_range:
  "1 \<le> clampMinutes v \<and> clampMinutes v \<le> 180 \<and> clampMinutes None = 1 \<and>
   duration_of (durations (onChangeDuration field v s)) field = clampMinutes v \<and>
   durations_ok DEFAULT_DURATIONS \<and>
   (durations_ok (durations s) \<longrightarrow>
      durations_ok (durations (onChangeDuration field v s)) \<and>
      durations_ok (durations (tick now s)) \<and>
      durations_ok (durations (handleStartPause s)) \<and>
      durations_ok (durations (handleReset s)) \<and>
      durations_ok (durations (handleSkip s)) \<and>
      durations_ok (durations (setSelectedCategory c s))) \<and>
   loadDurations Absent = raw_of DEFAULT_DURATIONS \<and>
   loadDurations Corrupt = raw_of DEFAULT_DURATIONS \<and>
   raw_ok (loadDurations Absent) \<and> raw_ok (loadDurations Corrupt) \<and>
   (\<not> is_object parsed \<longrightarrow>
      loadDurations (Parsed parsed) = raw_of DEFAULT_DURATIONS \<and>
      raw_ok (loadDurations (Parsed parsed))) \<and>
   ((case named_prop parsed ''focus'' of None \<Rightarrow> True | Some x \<Rightarrow> in_range x) \<and>
    (case named_prop parsed ''short'' of None \<Rightarrow> True | Some x \<Rightarrow> in_range x) \<and>
    (case named_prop parsed ''long'' of None \<Rightarrow> True | Some x \<Rightarrow> in_range x) \<longrightarrow>
      raw_ok (loadDurations (Parsed parsed))) \<and>
   (is_object parsed \<longrightarrow>
      raw_focus (loadDurations (Parsed parsed)) =
        (case named_prop parsed ''focus'' of Some x \<Rightarrow> x | None \<Rightarrow> JNum 25) \<and>
      raw_short (loadDurations (Parsed parsed)) =
        (case named_prop parsed ''short'' of Some x \<Rightarrow> x | None \<Rightarrow> JNum 5) \<and>
      raw_long (loadDurations (Parsed parsed)) =
        (case named_prop parsed ''long'' of Some x \<Rightarrow> x | None \<Rightarrow> JNum 15) \<and>
      (raw_ok (loadDurations (Parsed parsed)) \<longleftrightarrow>
         (case named_prop parsed ''focus'' of None \<Rightarrow> True | Some x \<Rightarrow> in_range x) \<and>
         (case named_prop parsed ''short'' of None \<Rightarrow> True | Some x \<Rightarrow> in_range x) \<and>
         (case named_prop parsed ''long'' of None \<Rightarrow> True | Some x \<Rightarrow> in_range x)))"
proof -
  have a: "1 \<le> clampMinutes v \<and> clampMinutes v \<le> 180" by (rule clampMinutes_range)
  have b: "clampMinutes None = 1" by (simp add: clampMinutes_def)
  have c: "duration_of (durations (onChangeDuration field v s)) field = clampMinutes v"
    by (simp add: onChangeDuration_def Let_def duration_of_set_duration)
  have d: "durations_ok DEFAULT_DURATIONS"
    by (simp add: durations_ok_def DEFAULT_DURATIONS_def)
  have e: "durations_ok (durations s) \<longrightarrow>
      durations_ok (durations (onChangeDuration field v s)) \<and>
      durations_ok (durations (tick now s)) \<and>
      durations_ok (durations (handleStartPause s)) \<and>
      durations_ok (durations (handleReset s)) \<and>
      durations_ok (durations (handleSkip s)) \<and>
      durations_ok (durations (setSelectedCategory c s))"
    using a by (simp add: tick_durations onChangeDuration_def Let_def set_duration_ok
        handleStartPause_def handleReset_def handleSkip_def setSelectedCategory_def)
  have f0: "loadDurations Absent = raw_of DEFAULT_DURATIONS"
    "loadDurations Corrupt = raw_of DEFAULT_DURATIONS"
    by (simp_all add: loadDurations_def)
  have f: "raw_ok (loadDurations Absent)" "raw_ok (loadDurations Corrupt)"
    by (simp_all add: f0 raw_ok_default)
  have g: "\<not> is_object parsed \<longrightarrow>
      loadDurations (Parsed parsed) = raw_of DEFAULT_DURATIONS \<and>
      raw_ok (loadDurations (Parsed parsed))"
    by (simp add: loadDurations_def raw_ok_default)
  have h: "(case named_prop parsed ''focus'' of None \<Rightarrow> True | Some x \<Rightarrow> in_range x) \<and>
    (case named_prop parsed ''short'' of None \<Rightarrow> True | Some x \<Rightarrow> in_range x) \<and>
    (case named_prop parsed ''long'' of None \<Rightarrow> True | Some x \<Rightarrow> in_range x) \<longrightarrow>
      raw_ok (loadDurations (Parsed parsed))"
    using spread_in_range [of parsed "raw_of DEFAULT_DURATIONS"] raw_ok_default
    by (simp add: loadDurations_def)
  have k: "is_object parsed \<longrightarrow>
      raw_focus (loadDurations (Parsed parsed)) =
        (case named_prop parsed ''focus'' of Some x \<Rightarrow> x | None \<Rightarrow> JNum 25) \<and>
      raw_short (loadDurations (Parsed parsed)) =
        (case named_prop parsed ''short'' of Some x \<Rightarrow> x | None \<Rightarrow> JNum 5) \<and>
      raw_long (loadDurations (Parsed parsed)) =
        (case named_prop parsed ''long'' of Some x \<Rightarrow> x | None \<Rightarrow> JNum 15) \<and>
      (raw_ok (loadDurations (Parsed parsed)) \<longleftrightarrow>
         (case named_prop parsed ''focus'' of None \<Rightarrow> True | Some x \<Rightarrow> in_range x) \<and>
         (case named_prop parsed ''short'' of None \<Rightarrow> True | Some x \<Rightarrow> in_range x) \<and>
         (case named_prop parsed ''long'' of None \<Rightarrow> True | Some x \<Rightarrow> in_range x))"
    using loadDurations_object [of parsed] loadDurations_ok_iff [of parsed] by blast
  from a b c d e f0 f g h k show ?thesis by blast
qed

theorem durations_in_range_witness:
  "durations_ok (durations (idle DEFAULT_DURATIONS 0)) \<and>
   durations (onChangeDuration Focus (Some 500) (idle DEFAULT_DURATIONS 0)) =
     \<lparr>focus = 180, short = 5, long = 15\<rparr> \<and>
   durations_ok (durations (onChangeDuration Focus (Some 500) (idle DEFAULT_DURATIONS 0))) \<and>
   durations_ok (durations (onChangeDuration Short None (idle DEFAULT_DURATIONS 0))) \<and>
   \<not> is_object (JStr ''25'') \<and> raw_ok (loadDurations (Parsed (JStr ''25''))) \<and>
   is_object (JObj [(''focus'', JNum 50)]) \<and>
   named_prop (JObj [(''focus'', JNum 50)]) ''focus'' = Some (JNum 50) \<and>
   raw_ok (loadDurations (Parsed (JObj [(''focus'', JNum 50)]))) \<and>
   raw_focus (loadDurations (Parsed (JObj [(''focus'', JNum 50)]))) = JNum 50 \<and>
   raw_short (loadDurations (Parsed (JObj [(''focus'', JNum 50)]))) = JNum 5 \<and>
   is_object (JObj [(''short'', JNum 0)]) \<and>
   raw_short (loadDurations (Parsed (JObj [(''short'', JNum 0)]))) = JNum 0 \<and>
   \<not> raw_ok (loadDurations (Parsed (JObj [(''short'', JNum 0)])))"
proof -
  have i: "durations_ok (durations (idle DEFAULT_DURATIONS 0))"
    by (simp add: idle_def durations_ok_def DEFAULT_DURATIONS_def)
  have e: "durations (onChangeDuration Focus (Some 500) (idle DEFAULT_DURATIONS 0)) =
     \<lparr>focus = 180, short = 5, long = 15\<rparr>"
    by (simp add: onChangeDuration_def Let_def clampMinutes_def idle_def DEFAULT_DURATIONS_def)
  have p: "named_prop (JObj [(''focus'', JNum 50)]) ''focus'' = Some (JNum 50)"
    "named_prop (JObj [(''focus'', JNum 50)]) ''short'' = None"
    "named_prop (JObj [(''focus'', JNum 50)]) ''long'' = None"
    "in_range (JNum 50)"
    "named_prop (JObj [(''short'', JNum 0)]) ''focus'' = None"
    "named_prop (JObj [(''short'', JNum 0)]) ''short'' = Some (JNum 0)"
    "named_prop (JObj [(''short'', JNum 0)]) ''long'' = None"
    "\<not> in_range (JNum 0)"
    by (simp_all add: in_range_def)
  from durations_in_range [of "Some 500" Focus "idle DEFAULT_DURATIONS 0" 0 "''x''" "JStr ''25''"]
    durations_in_range [of None Short "idle DEFAULT_DURATIONS 0" 0 "''x''"
      "JObj [(''focus'', JNum 50)]"]
    durations_in_range [of None Short "idle DEFAULT_DURATIONS 0" 0 "''x''"
      "JObj [(''short'', JNum 0)]"] i e p
  show ?thesis by simp
qed

text \<open>A stored focus duration of 500 minutes is loaded as it is.\<close>

theorem unclamped_load:
  "raw_focus (loadDurations (Parsed (JObj [(''focus'', JNum 500)]))) = JNum 500 \<and>
   \<not> in_range (raw_focus (loadDurations (Parsed (JObj [(''focus'', JNum 500)])))) \<and>
   \<not> raw_ok (loadDurations (Parsed (JObj [(''focus'', JNum 500)])))"
  by (simp add: loadDurations_def spread_def raw_ok_def in_range_def)

subsection \<open>Malformed stored values\<close>




section \<open>Properties of the category colours\<close>

lemma set_foldl_set_add: "set (foldl set_add xs ys) = set xs \<union> set ys"
  by (induction ys arbitrary: xs) (auto simp: set_add_def)

lemma distinct_foldl_set_add: "distinct xs \<Longrightarrow> distinct (foldl set_add xs ys)"
  by (induction ys arbitrary: xs) (auto simp: set_add_def)

lemma set_seenCategories:
  "set (seenCategories m events) =
   {x \<in> fst ` set m \<union> category ` set events. trim x \<noteq> []}"
  by (auto simp: seenCategories_def set_foldl_set_add)

lemma distinct_seenCategories: "distinct (seenCategories m events)"
  by (simp add: seenCategories_def distinct_foldl_set_add)

lemma set_insort_cmp: "set (insort_cmp cmp x ys) = insert x (set ys)"
  by (induction ys) auto

lemma distinct_insort_cmp: "distinct ys \<Longrightarrow> x \<notin> set ys \<Longrightarrow> distinct (insort_cmp cmp x ys)"
  by (induction ys) (auto simp: set_insort_cmp)

lemma sort_cmp_from:
  "set (foldl (\<lambda>acc x. insort_cmp cmp x acc) acc xs) = set acc \<union> set xs"
  by (induction xs arbitrary: acc) (auto simp: set_insort_cmp)

lemma set_sort_cmp: "set (sort_cmp cmp xs) = set xs"
  by (simp add: sort_cmp_def sort_cmp_from)

lemma distinct_sort_cmp_from:
  "distinct acc \<Longrightarrow> distinct xs \<Longrightarrow> set acc \<inter> set xs = {} \<Longrightarrow>
   distinct (foldl (\<lambda>acc x. insort_cmp cmp x acc) acc xs)"
proof (induction xs arbitrary: acc)
  case Nil
  then show ?case by simp
next
  case (Cons x xs)
  have "distinct (insort_cmp cmp x acc)"
    using Cons.prems by (simp add: distinct_insort_cmp)
  moreover have "set (insort_cmp cmp x acc) \<inter> set xs = {}"
    using Cons.prems by (auto simp: set_insort_cmp)
  ultimately show ?case using Cons.IH [of "insort_cmp cmp x acc"] Cons.prems by simp
qed

lemma distinct_sort_cmp: "distinct xs \<Longrightarrow> distinct (sort_cmp cmp xs)"
  by (simp add: sort_cmp_def distinct_sort_cmp_from)

lemma sorted_insort_cmp:
  assumes "consistent cmp" and "sorted_wrt (\<lambda>a b. cmp a b \<le> 0) ys"
  shows "sorted_wrt (\<lambda>a b. cmp a b \<le> 0) (insort_cmp cmp x ys)"
  using assms(2)
proof (induction ys)
  case Nil
  then show ?case by simp
next
  case (Cons y ys)
  show ?case
  proof (cases "cmp x y < 0")
    case True
    then have "cmp x y \<le> 0" by simp
    then have "\<forall>z\<in>set ys. cmp x z \<le> 0"
      using Cons.prems assms(1) unfolding consistent_def by (metis sorted_wrt.simps(2))
    with True Cons.prems show ?thesis by simp
  next
    case False
    then have "cmp y x \<le> 0" using assms(1) unfolding consistent_def by simp
    with False Cons show ?thesis by (auto simp: set_insort_cmp)
  qed
qed

lemma sorted_sort_cmp_from:
  "consistent cmp \<Longrightarrow> sorted_wrt (\<lambda>a b. cmp a b \<le> 0) acc \<Longrightarrow>
   sorted_wrt (\<lambda>a b. cmp a b \<le> 0) (foldl (\<lambda>acc x. insort_cmp cmp x acc) acc xs)"
  by (induction xs arbitrary: acc) (simp_all add: sorted_insort_cmp)

lemma sorted_sort_cmp:
  "consistent cmp \<Longrightarrow> sorted_wrt (\<lambda>a b. cmp a b \<le> 0) (sort_cmp cmp xs)"
  by (simp add: sort_cmp_def sorted_sort_cmp_from)

lemma map_of_colorMap_from:
  "map_of (foldl (\<lambda>mp p. set_prop mp (fst p) (f (snd p))) mp0 ps) k =
   (case map_of (rev ps) k of Some i \<Rightarrow> Some (f i) | None \<Rightarrow> map_of mp0 k)"
proof (induction ps arbitrary: mp0)
  case Nil
  then show ?case by simp
next
  case (Cons p ps)
  show ?case
    by (cases p) (auto simp: Cons.IH map_of_set_prop map_add_def split: option.splits)
qed

lemma map_of_rev_distinct: "distinct (map fst xs) \<Longrightarrow> map_of (rev xs) = map_of xs"
  using map_of_inject_set [of "rev xs" xs] by (simp add: rev_map [symmetric])

lemma map_of_colorMap_nth:
  assumes "distinct cats" and "i < length cats"
  shows "map_of (colorMap cats) (cats ! i) = Some (palette ! (i mod length palette))"
proof -
  have d: "distinct (map fst (zip cats [0..<length cats]))" using assms(1) by simp
  have "map_of (rev (zip cats [0..<length cats])) (cats ! i) =
        map_of (zip cats [0..<length cats]) (cats ! i)"
    using d by (simp only: map_of_rev_distinct)
  also have "\<dots> = Some ([0..<length cats] ! i)"
    using assms by (intro map_of_zip_nth) simp_all
  finally have "map_of (rev (zip cats [0..<length cats])) (cats ! i) = Some i"
    using assms(2) by simp
  then show ?thesis
    by (simp add: colorMap_def
        map_of_colorMap_from [where f = "\<lambda>i. palette ! (i mod length palette)"])
qed

lemma palette_nth_mem: "palette ! (n mod length palette) \<in> set palette"
  by (rule nth_mem) (simp add: palette_def)

lemma colorMap_range:
  "map_of (colorMap cats) k = Some c \<Longrightarrow> c \<in> set palette"
  unfolding colorMap_def
    map_of_colorMap_from [where f = "\<lambda>i. palette ! (i mod length palette)"]
  using palette_nth_mem by (auto split: option.splits)

lemma categoryColor_range: "categoryColor cmp m events label \<in> set palette"
proof (cases "map_of (colorMap (allCategories cmp m events)) label")
  case None
  then show ?thesis using palette_nth_mem [of 0] by (simp add: categoryColor_def)
next
  case (Some c)
  then show ?thesis using colorMap_range [OF Some] by (simp add: categoryColor_def)
qed

subsection \<open>The comparator by character code\<close>

lemma codeCompare_cases:
  "codeCompare a b = - 1 \<or> codeCompare a b = 0 \<or> codeCompare a b = 1"
  by (induction a b rule: codeCompare.induct) simp_all

lemma codeCompare_antisym: "0 \<le> codeCompare a b \<Longrightarrow> codeCompare b a \<le> 0"
proof (induction a b rule: codeCompare.induct)
  case (4 x xs y ys)
  show ?case
  proof (cases "(of_char x :: nat) < of_char y")
    case True
    with 4 show ?thesis by simp
  next
    case False
    note nlt = this
    show ?thesis
    proof (cases "(of_char y :: nat) < of_char x")
      case True
      with nlt show ?thesis by simp
    next
      case False
      with nlt 4 show ?thesis by simp
    qed
  qed
qed simp_all


lemma codeCompare_Cons_le:
  "codeCompare (x # xs) (y # ys) \<le> 0 \<longleftrightarrow>
   (of_char x :: nat) < of_char y \<or> ((of_char x :: nat) = of_char y \<and> codeCompare xs ys \<le> 0)"
proof (cases "(of_char x :: nat) < of_char y")
  case True
  then show ?thesis by simp
next
  case False
  note nlt = this
  show ?thesis
  proof (cases "(of_char y :: nat) < of_char x")
    case True
    then have "(of_char x :: nat) \<noteq> of_char y" by auto
    with True nlt show ?thesis by (simp del: of_char_eq_iff)
  next
    case False
    with nlt have "(of_char x :: nat) = of_char y" by simp
    then show ?thesis by (simp del: of_char_eq_iff)
  qed
qed

lemma codeCompare_trans:
  "codeCompare a b \<le> 0 \<Longrightarrow> codeCompare b c \<le> 0 \<Longrightarrow> codeCompare a c \<le> 0"
proof (induction a b arbitrary: c rule: codeCompare.induct)
  case 1
  then show ?case by simp
next
  case (2 y ys)
  then show ?case by (cases c) simp_all
next
  case (3 x xs)
  then show ?case by simp
next
  case (4 x xs y ys)
  show ?case
  proof (cases c)
    case Nil
    with "4.prems"(2) show ?thesis by simp
  next
    case (Cons z zs)
    define X Y Z where "X = (of_char x :: nat)" and "Y = (of_char y :: nat)"
      and "Z = (of_char z :: nat)"
    have ab: "X < Y \<or> (X = Y \<and> codeCompare xs ys \<le> 0)"
      using "4.prems"(1) unfolding codeCompare_Cons_le X_def Y_def .
    have bc: "Y < Z \<or> (Y = Z \<and> codeCompare ys zs \<le> 0)"
      using "4.prems"(2) unfolding Cons codeCompare_Cons_le Y_def Z_def .
    have ih: "\<not> X < Y \<Longrightarrow> \<not> Y < X \<Longrightarrow> codeCompare xs ys \<le> 0 \<Longrightarrow>
              codeCompare ys zs \<le> 0 \<Longrightarrow> codeCompare xs zs \<le> 0"
      using "4.IH" [of zs] unfolding X_def Y_def by blast
    have "X < Z \<or> (X = Z \<and> codeCompare xs zs \<le> 0)"
      using ab bc ih by (metis less_trans)
    then show ?thesis unfolding Cons codeCompare_Cons_le X_def Z_def .
  qed
qed

lemma consistent_codeCompare: "consistent codeCompare"
  unfolding consistent_def using codeCompare_antisym codeCompare_trans by blast


text \<open>
  C9, as the code has it: the labels with recorded activity, blank ones left out, are
  listed without repetition in the order of the Turkish collation, and a label gets the
  palette colour at its position in that list modulo 5.  Every label gets a colour of the
  palette, and the assignment is a function of the stored minutes and events alone.
\<close>

theorem colours_by_sorted_position:
  "distinct (allCategories cmp m events) \<and>
   set (allCategories cmp m events) =
     {x \<in> fst ` set m \<union> category ` set events. trim x \<noteq> []} \<and>
   (consistent cmp \<longrightarrow> sorted_wrt (\<lambda>a b. cmp a b \<le> 0) (allCategories cmp m events)) \<and>
   (\<forall>i<length (allCategories cmp m events).
      categoryColor cmp m events (allCategories cmp m events ! i) = palette ! (i mod 5)) \<and>
   categoryColor cmp m events label \<in> set palette \<and> length palette = 5"
proof -
  let ?cats = "allCategories cmp m events"
  have d: "distinct ?cats"
    by (simp add: allCategories_def distinct_sort_cmp distinct_seenCategories)
  have s: "set ?cats = {x \<in> fst ` set m \<union> category ` set events. trim x \<noteq> []}"
    by (simp add: allCategories_def set_sort_cmp set_seenCategories)
  have o: "consistent cmp \<longrightarrow> sorted_wrt (\<lambda>a b. cmp a b \<le> 0) ?cats"
    by (simp add: allCategories_def sorted_sort_cmp)
  have l: "length palette = 5" by (simp add: palette_def)
  have c: "\<forall>i<length ?cats. categoryColor cmp m events (?cats ! i) = palette ! (i mod 5)"
    using map_of_colorMap_nth [OF d] by (simp add: categoryColor_def l)
  from d s o c categoryColor_range [of cmp m events label] l show ?thesis by blast
qed

theorem colours_by_sorted_position_witness:
  "consistent codeCompare \<and>
   allCategories codeCompare [(''Okuma'', 30)]
     [\<lparr>ts = 1, category = ''B'', minutes = 25\<rparr>, \<lparr>ts = 2, category = ''A'', minutes = 25\<rparr>] =
     [''A'', ''B'', ''Okuma''] \<and>
   sorted_wrt (\<lambda>a b. codeCompare a b \<le> 0) (allCategories codeCompare [(''Okuma'', 30)]
     [\<lparr>ts = 1, category = ''B'', minutes = 25\<rparr>, \<lparr>ts = 2, category = ''A'', minutes = 25\<rparr>]) \<and>
   categoryColor codeCompare [(''Okuma'', 30)]
     [\<lparr>ts = 1, category = ''B'', minutes = 25\<rparr>, \<lparr>ts = 2, category = ''A'', minutes = 25\<rparr>]
     ''Okuma'' = ''var(--chart-3)''"
proof -
  let ?m = "[(''Okuma'', 30::int)]"
  let ?e = "[\<lparr>ts = 1, category = ''B'', minutes = 25\<rparr>, \<lparr>ts = 2, category = ''A'', minutes = 25\<rparr>]"
  have a: "allCategories codeCompare ?m ?e = [''A'', ''B'', ''Okuma'']"
    by (simp add: allCategories_def seenCategories_def set_add_def sort_cmp_def trim_def
        is_space_def)
  have p: "palette ! 2 = ''var(--chart-3)''" by (simp add: palette_def)
  from colours_by_sorted_position [of codeCompare ?m ?e "''Okuma''"] consistent_codeCompare
  have srt: "sorted_wrt (\<lambda>a b. codeCompare a b \<le> 0) (allCategories codeCompare ?m ?e)"
    and col: "\<forall>i<length (allCategories codeCompare ?m ?e).
      categoryColor codeCompare ?m ?e (allCategories codeCompare ?m ?e ! i) = palette ! (i mod 5)"
    by blast+
  have "categoryColor codeCompare ?m ?e ''Okuma'' = ''var(--chart-3)''"
    using col [rule_format, of 2] by (simp add: a p)
  with srt consistent_codeCompare a show ?thesis by blast
qed

text \<open>
  With \<open>B\<close> recorded before \<open>A\<close>, the label \<open>B\<close> gets the second colour, not the first.
\<close>

theorem colour_not_first_seen:
  "categoryColor codeCompare []
     [\<lparr>ts = 1, category = ''B'', minutes = 25\<rparr>, \<lparr>ts = 2, category = ''A'', minutes = 25\<rparr>]
     ''B'' = ''var(--chart-2)'' \<and>
   firstSeenColor []
     [\<lparr>ts = 1, category = ''B'', minutes = 25\<rparr>, \<lparr>ts = 2, category = ''A'', minutes = 25\<rparr>]
     ''B'' = ''var(--chart-1)'' \<and>
   categoryColor codeCompare []
     [\<lparr>ts = 1, category = ''B'', minutes = 25\<rparr>, \<lparr>ts = 2, category = ''A'', minutes = 25\<rparr>]
     ''B'' \<noteq>
   firstSeenColor []
     [\<lparr>ts = 1, category = ''B'', minutes = 25\<rparr>, \<lparr>ts = 2, category = ''A'', minutes = 25\<rparr>]
     ''B''"
proof -
  let ?e = "[\<lparr>ts = 1, category = ''B'', minutes = 25\<rparr>, \<lparr>ts = 2, category = ''A'', minutes = 25\<rparr>]"
  have s: "seenCategories [] ?e = [''B'', ''A'']"
    by (simp add: seenCategories_def set_add_def trim_def is_space_def)
  have a: "allCategories codeCompare [] ?e = [''A'', ''B'']"
    by (simp add: allCategories_def s sort_cmp_def)
  have u: "[0..<2] = [0, 1]" by (simp add: upt_conv_Cons)
  have c: "categoryColor codeCompare [] ?e ''B'' = ''var(--chart-2)''"
    by (simp add: categoryColor_def a colorMap_def u palette_def)
  have f: "firstSeenColor [] ?e ''B'' = ''var(--chart-1)''"
    by (simp add: firstSeenColor_def s colorMap_def u palette_def)
  from c f show ?thesis by simp
qed

section \<open>Properties of the weekly view\<close>

subsection \<open>A week of seven 24-hour days\<close>

text \<open>
  When every local day of the week has 24 hours, the view has seven rows dated Monday to
  Sunday, a row's total and breakdown are the sums over the events of its own local day,
  the breakdown is in descending order of minutes, and the week's totals are the sums
  over the events between the two Mondays.
\<close>

lemma diffToMonday_days: "map diffToMonday [0, 1, 2, 3, 4, 5, 6] = [6, 0, 1, 2, 3, 4, 5]"
  by (simp add: diffToMonday_def)

lemma dayIndex_less: "inWeek startMs ev \<Longrightarrow> dayIndex startMs ev < 7"
proof -
  assume "inWeek startMs ev"
  then have "0 \<le> ts ev - startMs" "ts ev - startMs < 7 * 86400000"
    by (simp_all add: inWeek_def MS_PER_DAY_def)
  then have "(ts ev - startMs) div 86400000 \<le> (7 * 86400000 - 1) div 86400000"
    by (intro zdiv_mono1) simp_all
  then have "(ts ev - startMs) div 86400000 < 7" by simp
  then show ?thesis by (simp add: dayIndex_def MS_PER_DAY_def)
qed

lemma weekly_step_eq:
  "weekly_step startMs acc ev =
   (if inWeek startMs ev \<and> dayIndex startMs ev < length (fst acc)
    then ((fst acc)[dayIndex startMs ev :=
            (fst acc ! dayIndex startMs ev)
              \<lparr>breakdown := add_minutes (breakdown (fst acc ! dayIndex startMs ev))
                              (category ev) (minutes ev),
               total' := total' (fst acc ! dayIndex startMs ev) + minutes ev\<rparr>],
          add_minutes (snd acc) (category ev) (minutes ev))
    else acc)"
  by (simp add: weekly_step_def Let_def inWeek_def dayIndex_def)

lemma weekly_step_length: "length (fst (weekly_step startMs acc ev)) = length (fst acc)"
  by (simp add: weekly_step_eq)

lemma weekly_fold_length:
  "length (fst (foldl (weekly_step startMs) acc evs)) = length (fst acc)"
  by (induction evs arbitrary: acc) (simp_all add: weekly_step_length)

lemma weekly_step_row:
  assumes "i < length (fst acc)"
  shows "date (fst (weekly_step startMs acc ev) ! i) = date (fst acc ! i) \<and>
         total' (fst (weekly_step startMs acc ev) ! i) =
           total' (fst acc ! i) +
           (if inWeek startMs ev \<and> dayIndex startMs ev = i then minutes ev else 0) \<and>
         get_minutes (breakdown (fst (weekly_step startMs acc ev) ! i)) l =
           get_minutes (breakdown (fst acc ! i)) l +
           (if inWeek startMs ev \<and> dayIndex startMs ev = i \<and> category ev = l
            then minutes ev else 0)"
  using assms by (auto simp: weekly_step_eq nth_list_update get_minutes_add_minutes)

lemma weekly_step_totals:
  assumes "length (fst acc) = 7"
  shows "get_minutes (snd (weekly_step startMs acc ev)) l =
         get_minutes (snd acc) l +
         (if inWeek startMs ev \<and> category ev = l then minutes ev else 0)"
  using assms dayIndex_less [of startMs ev]
  by (auto simp: weekly_step_eq get_minutes_add_minutes)

lemma weekly_fold_row:
  "i < length (fst acc) \<Longrightarrow>
   date (fst (foldl (weekly_step startMs) acc evs) ! i) = date (fst acc ! i) \<and>
   total' (fst (foldl (weekly_step startMs) acc evs) ! i) =
     total' (fst acc ! i) +
     sum_list (map minutes (filter (\<lambda>ev. inWeek startMs ev \<and> dayIndex startMs ev = i) evs)) \<and>
   get_minutes (breakdown (fst (foldl (weekly_step startMs) acc evs) ! i)) l =
     get_minutes (breakdown (fst acc ! i)) l +
     sum_list (map minutes (filter (\<lambda>ev. inWeek startMs ev \<and> dayIndex startMs ev = i \<and>
                                         category ev = l) evs))"
proof (induction evs arbitrary: acc)
  case Nil
  then show ?case by simp
next
  case (Cons ev evs)
  have len: "i < length (fst (weekly_step startMs acc ev))"
    using Cons.prems by (simp add: weekly_step_length)
  from Cons.IH [OF len] weekly_step_row [OF Cons.prems, of startMs ev l]
  show ?case by simp
qed

lemma weekly_fold_totals:
  "length (fst acc) = 7 \<Longrightarrow>
   get_minutes (snd (foldl (weekly_step startMs) acc evs)) l =
     get_minutes (snd acc) l +
     sum_list (map minutes (filter (\<lambda>ev. inWeek startMs ev \<and> category ev = l) evs))"
proof (induction evs arbitrary: acc)
  case Nil
  then show ?case by simp
next
  case (Cons ev evs)
  have len: "length (fst (weekly_step startMs acc ev)) = 7"
    using Cons.prems by (simp add: weekly_step_length)
  from Cons.IH [OF len] weekly_step_totals [OF Cons.prems, of startMs ev l]
  show ?case by simp
qed


lemma div_eq_iff_int:
  fixes a b q :: int
  assumes "0 < b"
  shows "a div b = q \<longleftrightarrow> q * b \<le> a \<and> a < (q + 1) * b"
proof
  assume "a div b = q"
  then have "a = q * b + a mod b" by (metis div_mult_mod_eq)
  moreover have "0 \<le> a mod b" "a mod b < b" using assms by simp_all
  ultimately show "q * b \<le> a \<and> a < (q + 1) * b" by (simp add: algebra_simps)
next
  assume h: "q * b \<le> a \<and> a < (q + 1) * b"
  have "a = b * q + (a - q * b)" by (simp add: algebra_simps)
  moreover have "0 \<le> a - q * b" "a - q * b < b" using h by (simp_all add: algebra_simps)
  ultimately show "a div b = q" by (rule int_div_pos_eq)
qed

lemma regular_week_day:
  assumes "regular_week dayStart" and "i < 7"
  shows "onLocalDay dayStart i (ts ev) \<longleftrightarrow>
         inWeek (dayStart 0) ev \<and> dayIndex (dayStart 0) ev = i"
proof -
  define M where "M = MS_PER_DAY"
  define a where "a = ts ev - dayStart 0"
  have M: "0 < M" by (simp add: M_def MS_PER_DAY_def)
  have lo: "dayStart i = dayStart 0 + int i * M"
    using assms(1) [unfolded regular_week_def, rule_format, of i] assms(2)
    by (simp add: M_def)
  have hi: "dayStart (Suc i) = dayStart 0 + (int i + 1) * M"
    using assms(1) [unfolded regular_week_def, rule_format, of "Suc i"] assms(2)
    by (simp add: M_def)
  have "int i + 1 \<le> 7" using assms(2) by simp
  then have top: "(int i + 1) * M \<le> 7 * M"
    using M by (rule mult_right_mono [OF _ less_imp_le])
  have day: "onLocalDay dayStart i (ts ev) \<longleftrightarrow> int i * M \<le> a \<and> a < (int i + 1) * M"
    by (simp add: onLocalDay_def lo hi a_def) linarith
  have wk: "inWeek (dayStart 0) ev \<longleftrightarrow> 0 \<le> a \<and> a < 7 * M"
    by (simp add: inWeek_def a_def M_def) linarith
  have ix: "dayIndex (dayStart 0) ev = nat (a div M)"
    by (simp add: dayIndex_def a_def M_def)
  show ?thesis
  proof
    assume "onLocalDay dayStart i (ts ev)"
    then have b: "int i * M \<le> a" "a < (int i + 1) * M" using day by simp_all
    then have "a div M = int i" using div_eq_iff_int [OF M, of a "int i"] by simp
    moreover have "0 \<le> int i * M" using M by simp
    ultimately show "inWeek (dayStart 0) ev \<and> dayIndex (dayStart 0) ev = i"
      using b top by (simp add: wk ix)
  next
    assume h: "inWeek (dayStart 0) ev \<and> dayIndex (dayStart 0) ev = i"
    then have "0 \<le> a" using wk by simp
    then have "0 \<le> a div M" using M by (simp add: pos_imp_zdiv_nonneg_iff)
    moreover have "nat (a div M) = i" using h by (simp add: ix)
    ultimately have "a div M = int i" by linarith
    then show "onLocalDay dayStart i (ts ev)"
      using div_eq_iff_int [OF M, of a "int i"] day by simp
  qed
qed

lemma regular_week_span:
  assumes "regular_week dayStart"
  shows "inWeek (dayStart 0) ev \<longleftrightarrow> dayStart 0 \<le> ts ev \<and> ts ev < dayStart 7"
  using assms [unfolded regular_week_def, rule_format, of 7] by (simp add: inWeek_def)

lemma map_fst_set_prop:
  "map fst (set_prop m k v) = (if k \<in> fst ` set m then map fst m else map fst m @ [k])"
  by (induction m) force+

lemma distinct_add_minutes:
  "distinct (map fst m) \<Longrightarrow> distinct (map fst (add_minutes m l x))"
  by (simp add: add_minutes_def map_fst_set_prop)

lemma distinct_map_insort:
  "distinct (map f ys) \<Longrightarrow> f x \<notin> f ` set ys \<Longrightarrow> distinct (map f (insort_cmp cmp x ys))"
  by (induction ys) (auto simp: set_insort_cmp)

lemma distinct_map_sort_from:
  "distinct (map f acc) \<Longrightarrow> distinct (map f xs) \<Longrightarrow> f ` set acc \<inter> f ` set xs = {} \<Longrightarrow>
   distinct (map f (foldl (\<lambda>acc x. insort_cmp cmp x acc) acc xs))"
proof (induction xs arbitrary: acc)
  case Nil
  then show ?case by simp
next
  case (Cons x xs)
  have "distinct (map f (insort_cmp cmp x acc))"
    using Cons.prems by (intro distinct_map_insort) auto
  moreover have "f ` set (insort_cmp cmp x acc) \<inter> f ` set xs = {}"
    using Cons.prems by (auto simp: set_insort_cmp)
  ultimately show ?case using Cons.IH [of "insort_cmp cmp x acc"] Cons.prems by simp
qed

lemma get_minutes_sort_cmp:
  assumes "distinct (map fst xs)"
  shows "get_minutes (sort_cmp cmp xs) l = get_minutes xs l"
proof -
  have "distinct (map fst (sort_cmp cmp xs))"
    using assms by (simp add: sort_cmp_def distinct_map_sort_from)
  then have "map_of (sort_cmp cmp xs) = map_of xs"
    using assms by (simp add: map_of_inject_set set_sort_cmp)
  then show ?thesis by (simp add: get_minutes_def)
qed

lemma weekly_step_distinct:
  assumes "\<forall>row\<in>set (fst acc). distinct (map fst (breakdown row))"
  shows "\<forall>row\<in>set (fst (weekly_step startMs acc ev)). distinct (map fst (breakdown row))"
proof
  fix row assume "row \<in> set (fst (weekly_step startMs acc ev))"
  then show "distinct (map fst (breakdown row))"
    using assms
    by (auto simp: weekly_step_eq distinct_add_minutes split: if_splits
        dest!: set_update_subset_insert [THEN subsetD])
qed

lemma weekly_fold_distinct:
  "\<forall>row\<in>set (fst acc). distinct (map fst (breakdown row)) \<Longrightarrow>
   \<forall>row\<in>set (fst (foldl (weekly_step startMs) acc evs)). distinct (map fst (breakdown row))"
proof (induction evs arbitrary: acc)
  case Nil
  then show ?case by simp
next
  case (Cons ev evs)
  from Cons.IH [OF weekly_step_distinct [OF Cons.prems, of startMs ev]]
  show ?case by simp
qed


lemma weekRows_props:
  "length (weekRows dayStart) = 7 \<and>
   (\<forall>row\<in>set (weekRows dayStart). distinct (map fst (breakdown row))) \<and>
   (i < 7 \<longrightarrow> weekRows dayStart ! i = \<lparr>date = dayStart i, total' = 0, breakdown = []\<rparr>)"
  by (auto simp: weekRows_def simp del: upt_rec_numeral)

lemma consistent_by_minutes: "consistent (\<lambda>a b. snd b - snd a :: int)"
  by (simp add: consistent_def)

lemma weekly_regular_week:
  assumes "regular_week dayStart" and "i < 7"
  shows "length (fst (weekly dayStart events)) = 7 \<and>
         date (fst (weekly dayStart events) ! i) = dayStart i \<and>
         total' (fst (weekly dayStart events) ! i) =
           sum_list (map minutes (filter (\<lambda>ev. onLocalDay dayStart i (ts ev)) events)) \<and>
         get_minutes (breakdown (fst (weekly dayStart events) ! i)) l =
           sum_list (map minutes
             (filter (\<lambda>ev. onLocalDay dayStart i (ts ev) \<and> category ev = l) events)) \<and>
         sorted_wrt (\<lambda>a b. snd b \<le> snd a) (breakdown (fst (weekly dayStart events) ! i)) \<and>
         get_minutes (snd (weekly dayStart events)) l =
           sum_list (map minutes
             (filter (\<lambda>ev. dayStart 0 \<le> ts ev \<and> ts ev < dayStart 7 \<and> category ev = l) events))"
proof -
  let ?acc = "foldl (weekly_step (dayStart 0)) (weekRows dayStart, []) events"
  let ?row = "fst ?acc ! i"
  have len0: "length (fst (weekRows dayStart, [])) = 7" and i0: "i < length (fst (weekRows dayStart, []))"
    and row0: "fst (weekRows dayStart, []) ! i = \<lparr>date = dayStart i, total' = 0, breakdown = []\<rparr>"
    and d0: "\<forall>row\<in>set (fst (weekRows dayStart, [])). distinct (map fst (breakdown row))"
    using weekRows_props [of dayStart i] assms(2) by simp_all
  have len: "length (fst ?acc) = 7" using len0 by (simp add: weekly_fold_length)
  have w: "fst (weekly dayStart events) ! i =
           ?row\<lparr>breakdown := sort_cmp (\<lambda>a b. snd b - snd a) (breakdown ?row)\<rparr>"
    using len assms(2) by (simp add: weekly_def Let_def)
  have d: "distinct (map fst (breakdown ?row))"
    using weekly_fold_distinct [OF d0, of "dayStart 0" events] len assms(2)
    by (simp add: nth_mem)
  have day: "(inWeek (dayStart 0) ev \<and> dayIndex (dayStart 0) ev = i) = onLocalDay dayStart i (ts ev)"
    for ev using regular_week_day [OF assms, of ev] by simp
  have day': "(inWeek (dayStart 0) ev \<and> dayIndex (dayStart 0) ev = i \<and> category ev = l) =
              (onLocalDay dayStart i (ts ev) \<and> category ev = l)"
    for ev using day [of ev] by blast
  have span: "(inWeek (dayStart 0) ev \<and> category ev = l) =
              (dayStart 0 \<le> ts ev \<and> ts ev < dayStart 7 \<and> category ev = l)"
    for ev using regular_week_span [OF assms(1), of ev] by blast
  note r = weekly_fold_row [OF i0, of "dayStart 0" events l, unfolded day day' row0]
  have a: "length (fst (weekly dayStart events)) = 7"
    using len by (simp add: weekly_def Let_def)
  have b: "date (fst (weekly dayStart events) ! i) = dayStart i"
    using r by (simp add: w)
  have c: "total' (fst (weekly dayStart events) ! i) =
           sum_list (map minutes (filter (\<lambda>ev. onLocalDay dayStart i (ts ev)) events))"
    using r by (simp add: w)
  have e: "get_minutes (breakdown (fst (weekly dayStart events) ! i)) l =
           sum_list (map minutes
             (filter (\<lambda>ev. onLocalDay dayStart i (ts ev) \<and> category ev = l) events))"
    using r by (simp add: w get_minutes_sort_cmp [OF d]) (simp add: get_minutes_def)
  have f: "sorted_wrt (\<lambda>a b. snd b \<le> snd a) (breakdown (fst (weekly dayStart events) ! i))"
    using sorted_sort_cmp [OF consistent_by_minutes, of "breakdown ?row"] by (simp add: w)
  have g: "get_minutes (snd (weekly dayStart events)) l =
           sum_list (map minutes
             (filter (\<lambda>ev. dayStart 0 \<le> ts ev \<and> ts ev < dayStart 7 \<and> category ev = l) events))"
    using weekly_fold_totals [OF len0, of "dayStart 0" events l, unfolded span]
    by (simp add: weekly_def Let_def) (simp add: get_minutes_def)
  from a b c e f g show ?thesis by blast
qed

subsection \<open>The week in which summer time ends\<close>

lemma berlin_week_irregular: "berlin_week 7 \<noteq> berlin_week 0 + 7 * MS_PER_DAY"
  by (simp add: berlin_week_def MS_PER_DAY_def)

text \<open>
  C8: every event inside the current week is to be counted on its own local calendar day.
  The view takes the week to end \<open>7 * 24\<close> hours after Monday's local midnight and finds
  the day by whole multiples of 24 hours, while its rows are dated by the calendar.  In the
  week in which summer time ends, an event on Sunday at 23:30 local time lies on the
  seventh day and is left out of every row and of the week's totals.
\<close>

theorem dst_week_drops_sunday_evening:
  "onLocalDay berlin_week 6 1761517800000 \<and>
   map total' (fst (weekly berlin_week [\<lparr>ts = 1761517800000, category = ''Genel'', minutes = 25\<rparr>])) =
     [0, 0, 0, 0, 0, 0, 0] \<and>
   map breakdown (fst (weekly berlin_week [\<lparr>ts = 1761517800000, category = ''Genel'', minutes = 25\<rparr>])) =
     [[], [], [], [], [], [], []] \<and>
   snd (weekly berlin_week [\<lparr>ts = 1761517800000, category = ''Genel'', minutes = 25\<rparr>]) = []"
  by (simp add: onLocalDay_def berlin_week_def weekly_def weekly_step_def weekRows_def
      MS_PER_DAY_def Let_def sort_cmp_def upt_conv_Cons)

end
